theory Spec2Isabelle
  imports Complex_Main "HOL-Library.AList"
begin

section \<open>The Redis store, as far as the limiter uses it\<close>

text \<open>
  \<^verbatim>\<open>rate_limiter.py\<close> keeps one sorted set per identifier in Redis. The commands it
  issues are \<^verbatim>\<open>ZREMRANGEBYSCORE\<close>, \<^verbatim>\<open>ZCARD\<close>, \<^verbatim>\<open>ZADD\<close>, \<^verbatim>\<open>EXPIRE\<close>,
  \<^verbatim>\<open>ZREM\<close> and \<^verbatim>\<open>DEL\<close>. They are modelled as functions on an explicit store.

  Time stamps are the floats of \<^verbatim>\<open>time.time()\<close>, idealised as reals: the clock reading
  is an argument of every operation, and the reading of the client is also the time at
  which the server executes the commands of that call. The member of an event is
  \<^verbatim>\<open>str(current_time)\<close>; \<^verbatim>\<open>str\<close> is one-to-one on floats, so the constructor \<open>Str\<close>
  stands for it.
\<close>

type_synonym time = real

datatype member = Str time

type_synonym zset = "(member \<times> real) list"

text \<open>A key holding a sorted set: its (member, score) pairs and, when a time-to-live
  was set, the instant at which the key expires.\<close>

record redis_key =
  members :: zset
  expire_at :: "time option"

type_synonym redis = "string \<rightharpoonup> redis_key"

text \<open>A key whose expiry instant has been reached no longer exists for any command.\<close>

definition expired :: "redis \<Rightarrow> time \<Rightarrow> string \<Rightarrow> bool" where
  "expired db now key =
     (case db key of
        None \<Rightarrow> False
      | Some v \<Rightarrow> (case expire_at v of None \<Rightarrow> False | Some d \<Rightarrow> d \<le> now))"

definition touch :: "redis \<Rightarrow> time \<Rightarrow> string \<Rightarrow> redis" where
  "touch db now key = (if expired db now key then db(key := None) else db)"

text \<open>Redis never keeps an empty sorted set: removing the last member removes the key
  (and its time-to-live with it).\<close>

definition put_zset :: "redis \<Rightarrow> string \<Rightarrow> zset \<Rightarrow> time option \<Rightarrow> redis" where
  "put_zset db key z e =
     (if z = [] then db(key := None) else db(key \<mapsto> \<lparr>members = z, expire_at = e\<rparr>))"

text \<open>\<^verbatim>\<open>ZREMRANGEBYSCORE key lo hi\<close>: removes the members whose score lies in the closed
  interval from \<open>lo\<close> to \<open>hi\<close>.\<close>

definition zremrangebyscore :: "redis \<Rightarrow> time \<Rightarrow> string \<Rightarrow> real \<Rightarrow> real \<Rightarrow> redis" where
  "zremrangebyscore db now key lo hi =
     (let db0 = touch db now key in
      case db0 key of
        None \<Rightarrow> db0
      | Some v \<Rightarrow>
          put_zset db0 key (filter (\<lambda>(m, s). \<not> (lo \<le> s \<and> s \<le> hi)) (members v))
            (expire_at v))"

text \<open>\<^verbatim>\<open>ZCARD key\<close>: the number of members, 0 for a key that does not exist.\<close>

definition zcard :: "redis \<Rightarrow> time \<Rightarrow> string \<Rightarrow> int" where
  "zcard db now key =
     (case touch db now key key of
        None \<Rightarrow> 0
      | Some v \<Rightarrow> int (length (members v)))"

text \<open>\<^verbatim>\<open>ZADD key {m: s}\<close>: a member already present keeps its place and takes the new
  score; a new member is added; a missing key is created, without time-to-live.\<close>

definition zadd :: "redis \<Rightarrow> time \<Rightarrow> string \<Rightarrow> member \<Rightarrow> real \<Rightarrow> redis" where
  "zadd db now key m s =
     (let db0 = touch db now key in
      case db0 key of
        None \<Rightarrow> db0(key \<mapsto> \<lparr>members = [(m, s)], expire_at = None\<rparr>)
      | Some v \<Rightarrow> db0(key \<mapsto> v\<lparr>members := AList.update m s (members v)\<rparr>))"

text \<open>\<^verbatim>\<open>EXPIRE key secs\<close>: the key expires \<open>secs\<close> seconds from now; a timeout that is
  not positive deletes the key at once; nothing happens to a missing key.\<close>

definition expire :: "redis \<Rightarrow> time \<Rightarrow> string \<Rightarrow> int \<Rightarrow> redis" where
  "expire db now key secs =
     (let db0 = touch db now key in
      case db0 key of
        None \<Rightarrow> db0
      | Some v \<Rightarrow>
          if secs \<le> 0 then db0(key := None)
          else db0(key \<mapsto> v\<lparr>expire_at := Some (now + real_of_int secs)\<rparr>))"

text \<open>\<^verbatim>\<open>ZREM key m\<close>: removes the member \<open>m\<close>.\<close>

definition zrem :: "redis \<Rightarrow> time \<Rightarrow> string \<Rightarrow> member \<Rightarrow> redis" where
  "zrem db now key m =
     (let db0 = touch db now key in
      case db0 key of
        None \<Rightarrow> db0
      | Some v \<Rightarrow> put_zset db0 key (AList.delete m (members v)) (expire_at v))"

text \<open>\<^verbatim>\<open>DEL key\<close>: removes the key and answers how many keys it removed.\<close>

definition delete :: "redis \<Rightarrow> time \<Rightarrow> string \<Rightarrow> int \<times> redis" where
  "delete db now key =
     (let db0 = touch db now key in
      (if db0 key = None then 0 else 1, db0(key := None)))"

section \<open>The rate limiter\<close>

text \<open>\<^verbatim>\<open>RateLimiterConfig\<close>: the two defaults the limiter reads.\<close>

record config =
  default_requests :: int
  default_window :: int

text \<open>Python's \<^verbatim>\<open>x or d\<close> on an optional integer: \<^verbatim>\<open>None\<close> and \<^verbatim>\<open>0\<close> are falsy.\<close>

definition py_or :: "int option \<Rightarrow> int \<Rightarrow> int" where
  "py_or x d = (case x of None \<Rightarrow> d | Some v \<Rightarrow> if v = 0 then d else v)"

text \<open>Python's \<^verbatim>\<open>int(x)\<close> on a float truncates towards zero.\<close>

definition py_int :: "real \<Rightarrow> int" where
  "py_int x = (if x < 0 then \<lceil>x\<rceil> else \<lfloor>x\<rfloor>)"

text \<open>The metadata dictionary; the entry \<^verbatim>\<open>"reset"\<close> is the field \<open>reset_time\<close>.\<close>

record metadata =
  limit :: int
  remaining :: int
  reset_time :: int
  retry_after :: int

definition key_of :: "string \<Rightarrow> string" where
  "key_of identifier = ''rate_limit:'' @ identifier"

definition window_start :: "time \<Rightarrow> int \<Rightarrow> real" where
  "window_start current_time window_seconds = current_time - real_of_int window_seconds"

text \<open>The first command of the pipeline, also the first command of \<^verbatim>\<open>get_usage\<close>:
  \<^verbatim>\<open>zremrangebyscore(key, 0, window_start)\<close>.\<close>

definition purge :: "redis \<Rightarrow> time \<Rightarrow> string \<Rightarrow> int \<Rightarrow> redis" where
  "purge db current_time key window_seconds =
     zremrangebyscore db current_time key 0 (window_start current_time window_seconds)"

text \<open>The four commands of the pipeline (\<^verbatim>\<open>pipe.execute()\<close>). Of the replies only the
  second, the count, is read.\<close>

definition pipeline :: "redis \<Rightarrow> time \<Rightarrow> string \<Rightarrow> int \<Rightarrow> int \<times> redis" where
  "pipeline db current_time key window_seconds =
     (let db1 = purge db current_time key window_seconds;
          request_count = zcard db1 current_time key;
          db2 = zadd db1 current_time key (Str current_time) current_time;
          db3 = expire db2 current_time key window_seconds
      in (request_count, db3))"

text \<open>\<^verbatim>\<open>RateLimiter.is_allowed\<close> of \<^verbatim>\<open>rate_limiter.py\<close>, for a call that raises nothing;
  \<open>is_allowed_raising\<close> below adds the exceptions. The float sum of \<^verbatim>\<open>reset_time\<close> is taken
  exactly.\<close>

definition is_allowed ::
  "config \<Rightarrow> redis \<Rightarrow> time \<Rightarrow> string \<Rightarrow> int option \<Rightarrow> int option
     \<Rightarrow> (bool \<times> metadata) \<times> redis" where
  "is_allowed cfg db current_time identifier max_requests0 window_seconds0 =
     (let max_requests = py_or max_requests0 (default_requests cfg);
          window_seconds = py_or window_seconds0 (default_window cfg);
          key = key_of identifier;
          (request_count, db3) = pipeline db current_time key window_seconds;
          reset_t = py_int (current_time + real_of_int window_seconds);
          remaining_n = max 0 (max_requests - request_count - 1);
          md = \<lparr>limit = max_requests, remaining = remaining_n, reset_time = reset_t,
                retry_after = (if request_count \<ge> max_requests then window_seconds else 0)\<rparr>;
          allowed = (request_count < max_requests);
          db4 = (if \<not> allowed then zrem db3 current_time key (Str current_time) else db3)
      in ((allowed, md), db4))"

text \<open>\<^verbatim>\<open>RateLimiter.reset\<close>.\<close>

definition reset :: "redis \<Rightarrow> time \<Rightarrow> string \<Rightarrow> bool \<times> redis" where
  "reset db current_time identifier =
     (let (n, db1) = delete db current_time (key_of identifier) in (n \<noteq> 0, db1))"

text \<open>\<^verbatim>\<open>RateLimiter.get_usage\<close>.\<close>

definition get_usage :: "config \<Rightarrow> redis \<Rightarrow> time \<Rightarrow> string \<Rightarrow> int option \<Rightarrow> int \<times> redis" where
  "get_usage cfg db current_time identifier window_seconds0 =
     (let window_seconds = py_or window_seconds0 (default_window cfg);
          key = key_of identifier;
          db1 = purge db current_time key window_seconds
      in (zcard db1 current_time key, db1))"

text \<open>
  The exceptions of \<^verbatim>\<open>is_allowed\<close>, a lost connection apart. There is no \<^verbatim>\<open>raise\<close> in the
  class; two of its statements can raise.

  Line 49, \<^verbatim>\<open>current_time - window_seconds\<close>, converts the integer to a float: Python raises
  \<^verbatim>\<open>OverflowError\<close> for an integer that rounds beyond the largest double.
\<close>

datatype error = OverflowError | ResponseError

definition float_of_int_ok :: "int \<Rightarrow> bool" where
  "float_of_int_ok n = (\<bar>n\<bar> < 2 ^ 1024 - 2 ^ 970)"

text \<open>
  \<^verbatim>\<open>pipe.execute()\<close> raises \<^verbatim>\<open>ResponseError\<close> when a command of the transaction is answered
  with an error. \<^verbatim>\<open>EXPIRE key secs\<close> is, when \<open>secs\<close> or the expiry instant in milliseconds
  is not a signed 64-bit integer (the server multiplies by 1000 and adds its clock, and
  refuses an overflow). The other commands of the transaction are executed all the same;
  the exception leaves \<^verbatim>\<open>is_allowed\<close> before the \<^verbatim>\<open>ZREM\<close>.
\<close>

definition expire_accepts :: "time \<Rightarrow> int \<Rightarrow> bool" where
  "expire_accepts now secs =
     (- 9223372036854775 \<le> secs \<and> secs \<le> 9223372036854775
      \<and> secs * 1000 \<le> 9223372036854775807 - \<lfloor>now * 1000\<rfloor>)"

definition is_allowed_raising ::
  "config \<Rightarrow> redis \<Rightarrow> time \<Rightarrow> string \<Rightarrow> int option \<Rightarrow> int option
     \<Rightarrow> (error + bool \<times> metadata) \<times> redis" where
  "is_allowed_raising cfg db current_time identifier max_requests0 window_seconds0 =
     (let window_seconds = py_or window_seconds0 (default_window cfg);
          key = key_of identifier
      in if \<not> float_of_int_ok window_seconds then (Inl OverflowError, db)
         else if \<not> expire_accepts current_time window_seconds then
           (Inl ResponseError,
            zadd (purge db current_time key window_seconds) current_time key
              (Str current_time) current_time)
         else (let (r, db4) = is_allowed cfg db current_time identifier
                                max_requests0 window_seconds0
               in (Inr r, db4)))"

text \<open>The defaults of \<^verbatim>\<open>config.py\<close> when the environment sets nothing.\<close>

definition default_config :: config where
  "default_config = \<lparr>default_requests = 100, default_window = 60\<rparr>"

subsection \<open>The copy in \<^verbatim>\<open>app.py\<close>\<close>

text \<open>
  \<^verbatim>\<open>app.py\<close> repeats the class; the only difference is the window start,
  \<^verbatim>\<open>current_time - window_seconds - 0.00001\<close>. Its value depends on the rounding of the two
  float subtractions and of the literal, so the rounding is written out here: \<open>fl\<close>, the
  function that takes a real to the float the machine keeps for it, is an argument of the
  model.
\<close>

definition app_window_start :: "(real \<Rightarrow> real) \<Rightarrow> time \<Rightarrow> int \<Rightarrow> real" where
  "app_window_start fl current_time window_seconds =
     fl (fl (current_time - real_of_int window_seconds) - fl (1 / 100000))"

definition app_purge :: "(real \<Rightarrow> real) \<Rightarrow> redis \<Rightarrow> time \<Rightarrow> string \<Rightarrow> int \<Rightarrow> redis" where
  "app_purge fl db current_time key window_seconds =
     zremrangebyscore db current_time key 0 (app_window_start fl current_time window_seconds)"

definition app_pipeline ::
  "(real \<Rightarrow> real) \<Rightarrow> redis \<Rightarrow> time \<Rightarrow> string \<Rightarrow> int \<Rightarrow> int \<times> redis" where
  "app_pipeline fl db current_time key window_seconds =
     (let db1 = app_purge fl db current_time key window_seconds;
          request_count = zcard db1 current_time key;
          db2 = zadd db1 current_time key (Str current_time) current_time;
          db3 = expire db2 current_time key window_seconds
      in (request_count, db3))"

definition app_is_allowed ::
  "(real \<Rightarrow> real) \<Rightarrow> config \<Rightarrow> redis \<Rightarrow> time \<Rightarrow> string \<Rightarrow> int option \<Rightarrow> int option
     \<Rightarrow> (bool \<times> metadata) \<times> redis" where
  "app_is_allowed fl cfg db current_time identifier max_requests0 window_seconds0 =
     (let max_requests = py_or max_requests0 (default_requests cfg);
          window_seconds = py_or window_seconds0 (default_window cfg);
          key = key_of identifier;
          (request_count, db3) = app_pipeline fl db current_time key window_seconds;
          reset_t = py_int (fl (current_time + real_of_int window_seconds));
          remaining_n = max 0 (max_requests - request_count - 1);
          md = \<lparr>limit = max_requests, remaining = remaining_n, reset_time = reset_t,
                retry_after = (if request_count \<ge> max_requests then window_seconds else 0)\<rparr>;
          allowed = (request_count < max_requests);
          db4 = (if \<not> allowed then zrem db3 current_time key (Str current_time) else db3)
      in ((allowed, md), db4))"

definition app_get_usage ::
  "(real \<Rightarrow> real) \<Rightarrow> config \<Rightarrow> redis \<Rightarrow> time \<Rightarrow> string \<Rightarrow> int option \<Rightarrow> int \<times> redis" where
  "app_get_usage fl cfg db current_time identifier window_seconds0 =
     (let window_seconds = py_or window_seconds0 (default_window cfg);
          key = key_of identifier;
          db1 = app_purge fl db current_time key window_seconds
      in (zcard db1 current_time key, db1))"

section \<open>Callers\<close>

text \<open>The (member, score) pairs a live key holds at time \<open>now\<close>.\<close>

definition zmembers :: "redis \<Rightarrow> time \<Rightarrow> string \<Rightarrow> zset" where
  "zmembers db now key =
     (case touch db now key key of None \<Rightarrow> [] | Some v \<Rightarrow> members v)"

text \<open>The loops of \<^verbatim>\<open>test_rate_limiter.py\<close>: one \<^verbatim>\<open>is_allowed\<close> after the other for the
  same identifier and policy, the clock reading \<open>t\<close> at each call.\<close>

fun checks ::
  "config \<Rightarrow> redis \<Rightarrow> string \<Rightarrow> int option \<Rightarrow> int option \<Rightarrow> time list
     \<Rightarrow> (bool \<times> metadata) list \<times> redis" where
  "checks cfg db i m w [] = ([], db)"
| "checks cfg db i m w (t # ts) =
     (let (r, db1) = is_allowed cfg db t i m w;
          (rs, db2) = checks cfg db1 i m w ts
      in (r # rs, db2))"

text \<open>A caller of the three operations, and a run of calls in sequence.\<close>

datatype call =
  Check string "int option" "int option" time
| Reset string time
| Usage string "int option" time

datatype reply = Verdict bool metadata | Deleted bool | Count int

fun ident :: "call \<Rightarrow> string" where
  "ident (Check i m w t) = i"
| "ident (Reset i t) = i"
| "ident (Usage i w t) = i"

fun exec :: "config \<Rightarrow> redis \<Rightarrow> call \<Rightarrow> reply \<times> redis" where
  "exec cfg db (Check i m w t) =
     (let ((a, md), db1) = is_allowed cfg db t i m w in (Verdict a md, db1))"
| "exec cfg db (Reset i t) = (let (b, db1) = reset db t i in (Deleted b, db1))"
| "exec cfg db (Usage i w t) = (let (n, db1) = get_usage cfg db t i w in (Count n, db1))"

fun run :: "config \<Rightarrow> redis \<Rightarrow> call list \<Rightarrow> reply list \<times> redis" where
  "run cfg db [] = ([], db)"
| "run cfg db (c # cs) =
     (let (r, db1) = exec cfg db c; (rs, db2) = run cfg db1 cs in (r # rs, db2))"

text \<open>The replies a run gives to the calls made for one identifier.\<close>

definition replies_for :: "string \<Rightarrow> config \<Rightarrow> redis \<Rightarrow> call list \<Rightarrow> reply list" where
  "replies_for i cfg db cs =
     map snd (filter (\<lambda>(c, r). ident c = i) (zip cs (fst (run cfg db cs))))"

text \<open>The record a key holds after events at the instants \<open>as\<close>, expiring at \<open>d\<close>.\<close>

definition event :: "time \<Rightarrow> member \<times> real" where
  "event t = (Str t, t)"

definition window_record :: "time list \<Rightarrow> time \<Rightarrow> redis_key option" where
  "window_record as d =
     (if as = [] then None else Some \<lparr>members = map event as, expire_at = Some d\<rparr>)"

section \<open>Concurrent callers\<close>

text \<open>
  \<^verbatim>\<open>is_allowed\<close> as the client sends it to the server. The pipeline is one transaction
  (\<^verbatim>\<open>redis_client.pipeline()\<close> wraps its commands in \<^verbatim>\<open>MULTI\<close>/\<^verbatim>\<open>EXEC\<close>), executed at
  \<^verbatim>\<open>pipe.execute()\<close>. The \<^verbatim>\<open>ZREM\<close> of a rejected request is a second command, sent after
  the replies of the transaction have come back; commands of other clients can run
  between the two.
\<close>

definition is_allowed_execute ::
  "config \<Rightarrow> redis \<Rightarrow> time \<Rightarrow> string \<Rightarrow> int option \<Rightarrow> int option
     \<Rightarrow> (bool \<times> metadata) \<times> redis" where
  "is_allowed_execute cfg db current_time identifier max_requests0 window_seconds0 =
     (let max_requests = py_or max_requests0 (default_requests cfg);
          window_seconds = py_or window_seconds0 (default_window cfg);
          key = key_of identifier;
          (request_count, db3) = pipeline db current_time key window_seconds;
          reset_t = py_int (current_time + real_of_int window_seconds);
          remaining_n = max 0 (max_requests - request_count - 1);
          md = \<lparr>limit = max_requests, remaining = remaining_n, reset_time = reset_t,
                retry_after = (if request_count \<ge> max_requests then window_seconds else 0)\<rparr>;
          allowed = (request_count < max_requests)
      in ((allowed, md), db3))"

definition is_allowed_retract :: "redis \<Rightarrow> time \<Rightarrow> string \<Rightarrow> bool \<Rightarrow> redis" where
  "is_allowed_retract db current_time identifier allowed =
     (if \<not> allowed then zrem db current_time (key_of identifier) (Str current_time) else db)"

text \<open>Clients that each make one call. A schedule is the order in which the server
  receives their commands; what a client has been answered is kept per client.\<close>

record request =
  req_identifier :: string
  req_max :: "int option"
  req_window :: "int option"
  req_time :: time

datatype command = Execute nat | Retract nat

type_synonym world = "redis \<times> (nat \<rightharpoonup> bool \<times> metadata)"

fun serve :: "config \<Rightarrow> (nat \<Rightarrow> request) \<Rightarrow> world \<Rightarrow> command \<Rightarrow> world" where
  "serve cfg rq (db, out) (Execute c) =
     (let (r, db1) = is_allowed_execute cfg db (req_time (rq c)) (req_identifier (rq c))
                       (req_max (rq c)) (req_window (rq c))
      in (db1, out(c \<mapsto> r)))"
| "serve cfg rq (db, out) (Retract c) =
     (case out c of
        None \<Rightarrow> (db, out)
      | Some r \<Rightarrow>
          (is_allowed_retract db (req_time (rq c)) (req_identifier (rq c)) (fst r), out))"

definition schedule :: "config \<Rightarrow> (nat \<Rightarrow> request) \<Rightarrow> redis \<Rightarrow> command list \<Rightarrow> world" where
  "schedule cfg rq db cmds = foldl (serve cfg rq) (db, Map.empty) cmds"

text \<open>Two clients, 0 and 1, calling for the same identifier with the same policy.\<close>

definition two_clients ::
  "string \<Rightarrow> int option \<Rightarrow> int option \<Rightarrow> time \<Rightarrow> time \<Rightarrow> nat \<Rightarrow> request" where
  "two_clients i m w ta tb c =
     \<lparr>req_identifier = i, req_max = m, req_window = w,
      req_time = (if c = 0 then ta else tb)\<rparr>"

section \<open>Auxiliary facts\<close>

subsection \<open>Lists of (member, score) pairs\<close>

lemma update_fresh: "k \<notin> fst ` set xs \<Longrightarrow> AList.update k v xs = xs @ [(k, v)]"
  by (induction xs) auto

lemma delete_fresh_snoc: "k \<notin> fst ` set xs \<Longrightarrow> AList.delete k (xs @ [(k, v)]) = xs"
  by (induction xs) (auto simp: AList.delete_eq)

lemma fst_event: "Str t \<in> fst ` set (map event as) \<longleftrightarrow> t \<in> set as"
  by (auto simp: event_def image_iff)

lemma filter_events_keep:
  "\<forall>a\<in>set as. hi < a \<Longrightarrow>
     filter (\<lambda>(m, s). \<not> (lo \<le> s \<and> s \<le> hi)) (map event as) = map event as"
  by (induction as) (auto simp: event_def)

lemma take_snoc_if:
  "take n (xs @ [x]) = (if length xs < n then xs @ [x] else take n xs)"
  by (induction xs arbitrary: n) (auto simp: take_Cons split: nat.splits)

subsection \<open>One call on a record of known events\<close>

lemma is_allowed_first:
  assumes rec: "db (key_of i) = None" and w: "1 \<le> w" and m: "1 \<le> m"
  shows "is_allowed cfg db t i (Some m) (Some w) =
    ((True, \<lparr>limit = m, remaining = m - 1, reset_time = py_int (t + real_of_int w), retry_after = 0\<rparr>),
     db(key_of i \<mapsto> \<lparr>members = [event t], expire_at = Some (t + real_of_int w)\<rparr>))"
  using assms
  by (auto simp: is_allowed_def py_or_def pipeline_def purge_def zremrangebyscore_def zcard_def
      zadd_def expire_def touch_def expired_def event_def)

lemma is_allowed_step:
  assumes rec: "db (key_of i) = Some \<lparr>members = map event as, expire_at = Some d\<rparr>"
    and ne: "as \<noteq> []" and live: "t < d" and fresh: "t \<notin> set as"
    and win: "\<forall>a\<in>set as. t - real_of_int w < a" and w: "1 \<le> w" and m: "m \<noteq> 0"
  shows "is_allowed cfg db t i (Some m) (Some w) =
    ((int (length as) < m,
      \<lparr>limit = m, remaining = max 0 (m - int (length as) - 1),
       reset_time = py_int (t + real_of_int w),
       retry_after = (if m \<le> int (length as) then w else 0)\<rparr>),
     db(key_of i \<mapsto> \<lparr>members = map event (if int (length as) < m then as @ [t] else as),
                        expire_at = Some (t + real_of_int w)\<rparr>))"
proof -
  have w0: "w \<noteq> 0" "\<not> w \<le> 0" using w by auto
  have nexp: "\<not> expired db t (key_of i)" using rec live by (simp add: expired_def)
  have p: "purge db t (key_of i) w = db"
    using rec ne nexp filter_events_keep[OF win, of 0]
    by (auto simp: purge_def zremrangebyscore_def touch_def put_zset_def window_start_def)
  have fr: "Str t \<notin> fst ` set (map event as)" using fresh by (simp only: fst_event) simp
  have pl: "pipeline db t (key_of i) w =
      (int (length as), db(key_of i \<mapsto> \<lparr>members = map event as @ [event t], expire_at = Some (t + real_of_int w)\<rparr>))"
    using rec nexp w0 live
    by (simp add: pipeline_def p zcard_def zadd_def expire_def touch_def expired_def
        update_fresh[OF fr] event_def[of t])
  show ?thesis
    using w0 m ne
    by (auto simp: is_allowed_def py_or_def pl zrem_def touch_def expired_def put_zset_def
        delete_fresh_snoc[OF fr] event_def[of t])
qed

lemma is_allowed_record:
  assumes rec: "db (key_of i) = window_record as d"
    and live: "as \<noteq> [] \<longrightarrow> t < d" and fresh: "t \<notin> set as"
    and win: "\<forall>a\<in>set as. t - real_of_int w < a" and w: "1 \<le> w" and m: "1 \<le> m"
  shows "is_allowed cfg db t i (Some m) (Some w) =
    ((int (length as) < m,
      \<lparr>limit = m, remaining = max 0 (m - int (length as) - 1),
       reset_time = py_int (t + real_of_int w),
       retry_after = (if m \<le> int (length as) then w else 0)\<rparr>),
     db(key_of i := window_record (if int (length as) < m then as @ [t] else as)
                      (t + real_of_int w)))"
proof (cases "as = []")
  case True
  have e: "db (key_of i) = None" using rec True by (simp add: window_record_def)
  have m1: "\<not> m \<le> 0" "0 < m" "max 0 (m - 1) = m - 1" using m by auto
  show ?thesis
    unfolding is_allowed_first[of db i w m cfg t, OF e w m] True
    by (simp add: window_record_def m1)
next
  case False
  have r: "db (key_of i) = Some \<lparr>members = map event as, expire_at = Some d\<rparr>"
    using rec False by (simp add: window_record_def)
  have l: "t < d" using live False by simp
  have m0: "m \<noteq> 0" using m by simp
  show ?thesis
    unfolding is_allowed_step[of db i as d t w m cfg, OF r False l fresh win w m0]
    using False by (simp add: window_record_def)
qed

subsection \<open>A sequence of calls\<close>

lemma checks_snoc:
  "checks cfg db i m w (ts @ [t]) =
     (fst (checks cfg db i m w ts) @ [fst (is_allowed cfg (snd (checks cfg db i m w ts)) t i m w)],
      snd (is_allowed cfg (snd (checks cfg db i m w ts)) t i m w))"
  by (induction ts arbitrary: db) (auto simp: split_def Let_def)

lemma checks_run:
  assumes m: "1 \<le> m" and w: "1 \<le> w" and e: "db (key_of i) = None"
  shows "distinct ts \<Longrightarrow> (\<forall>a\<in>set ts. \<forall>b\<in>set ts. b - real_of_int w < a) \<Longrightarrow>
    checks cfg db i (Some m) (Some w) ts =
      (map (\<lambda>j. (int j < m,
                 \<lparr>limit = m, remaining = max 0 (m - int j - 1),
                  reset_time = py_int (ts ! j + real_of_int w),
                  retry_after = (if m \<le> int j then w else 0)\<rparr>)) [0..<length ts],
       db(key_of i := window_record (take (nat m) ts) (last ts + real_of_int w)))"
proof (induction ts rule: rev_induct)
  case Nil
  show ?case using e by (auto simp: window_record_def fun_eq_iff)
next
  case (snoc t ts)
  let ?f = "\<lambda>xs j. (int j < m,
                 \<lparr>limit = m, remaining = max 0 (m - int j - 1),
                  reset_time = py_int (xs ! j + real_of_int w),
                  retry_after = (if m \<le> int j then w else 0)\<rparr>)"
  have d: "distinct ts" and fresh: "t \<notin> set ts" using snoc.prems(1) by auto
  have win: "\<forall>a\<in>set ts. \<forall>b\<in>set ts. b - real_of_int w < a" using snoc.prems(2) by auto
  have wt: "\<forall>a\<in>set ts. t - real_of_int w < a" using snoc.prems(2) by auto
  let ?as = "take (nat m) ts"
  let ?d = "last ts + real_of_int w"
  let ?db = "db(key_of i := window_record ?as ?d)"
  have prev: "checks cfg db i (Some m) (Some w) ts = (map (?f ts) [0..<length ts], ?db)"
    using snoc.IH[OF d win] .
  have rec: "?db (key_of i) = window_record ?as ?d" by simp
  have live: "?as \<noteq> [] \<longrightarrow> t < ?d"
  proof
    assume "?as \<noteq> []"
    then have "ts \<noteq> []" by auto
    then have "last ts \<in> set ts" by simp
    then show "t < ?d" using wt by fastforce
  qed
  have fr: "t \<notin> set ?as" using fresh by (auto dest: in_set_takeD)
  have wa: "\<forall>a\<in>set ?as. t - real_of_int w < a" using wt by (auto dest: in_set_takeD)
  have len: "int (length ?as) = min m (int (length ts))" using m by auto
  have lt: "(int (length ?as) < m) = (int (length ts) < m)" using len by auto
  have le: "(m \<le> int (length ?as)) = (m \<le> int (length ts))" using len by auto
  have rem: "max 0 (m - int (length ?as) - 1) = max 0 (m - int (length ts) - 1)" using len by auto
  have tk: "(if int (length ts) < m then ?as @ [t] else ?as) = take (nat m) (ts @ [t])"
    using m by (auto simp: take_snoc_if)
  have step: "is_allowed cfg ?db t i (Some m) (Some w) =
      (?f (ts @ [t]) (length ts),
       db(key_of i := window_record (take (nat m) (ts @ [t])) (t + real_of_int w)))"
    unfolding is_allowed_record[of ?db i ?as ?d t w m cfg, OF rec live fr wa w m, unfolded lt le rem tk]
    by simp
  show ?case
    unfolding checks_snoc prev fst_conv snd_conv step
    by (auto simp: nth_append fun_upd_def)
qed

subsection \<open>Usage\<close>

lemmas redis_defs = purge_def zremrangebyscore_def zcard_def zadd_def expire_def zrem_def
  touch_def expired_def put_zset_def window_start_def

lemma fresh_filter: "k \<notin> fst ` set xs \<Longrightarrow> k \<notin> fst ` set (filter P xs)"
  by auto

lemma blocked_check_usage:
  assumes blocked: "\<not> fst (fst (is_allowed cfg db t i m w))"
    and w: "1 \<le> py_or w (default_window cfg)"
    and fresh: "Str t \<notin> fst ` set (zmembers db t (key_of i))"
  shows "fst (get_usage cfg (snd (is_allowed cfg db t i m w)) t i w) = fst (get_usage cfg db t i w)"
proof -
  let ?W = "py_or w (default_window cfg)"
  let ?k = "key_of i"
  let ?P = "\<lambda>(m, s). \<not> (0 \<le> s \<and> s \<le> window_start t ?W)"
  have w0: "\<not> ?W \<le> 0" using w by simp
  show ?thesis
  proof (cases "touch db t ?k ?k")
    case None
    then show ?thesis
      using blocked w0
      by (auto simp: is_allowed_def get_usage_def pipeline_def redis_defs Let_def AList.delete_eq
          split: option.splits if_splits)
  next
    case (Some v)
    have fz: "Str t \<notin> fst ` set (members v)" using fresh Some by (simp add: zmembers_def)
    have fr: "Str t \<notin> fst ` set (filter ?P (members v))" using fz by (rule fresh_filter)
    from Some have dbk: "db ?k = Some v" and ne: "\<not> expired db t ?k"
      by (auto simp: touch_def split: if_splits)
    have ne': "\<And>d. expire_at v = Some d \<Longrightarrow> \<not> d \<le> t" using ne dbk by (simp add: expired_def)
    show ?thesis
    proof (cases "filter ?P (members v) = []")
      case True
      then show ?thesis
        using blocked w0 dbk ne
        by (auto simp: is_allowed_def get_usage_def pipeline_def redis_defs Let_def AList.delete_eq
          split: option.splits if_splits)
    next
      case False
      then show ?thesis
        using blocked w0 dbk ne ne' update_fresh[OF fr, of t] delete_fresh_snoc[OF fr, of t]
        by (auto simp: is_allowed_def get_usage_def pipeline_def redis_defs Let_def
          split: option.splits if_splits)
    qed
  qed
qed

lemma count_allowed: "length (filter (\<lambda>j. int j < m) [0..<n]) = min n (nat m)"
  by (induction n) auto

lemma usage_after_checks:
  assumes m: "1 \<le> m" and w: "1 \<le> w" and e: "db (key_of i) = None"
    and d: "distinct ts" and win: "\<forall>a\<in>set ts. \<forall>b\<in>set ts. b - real_of_int w < a"
    and u: "\<forall>a\<in>set ts. tu - real_of_int w < a"
  shows "fst (get_usage cfg (snd (checks cfg db i (Some m) (Some w) ts)) tu i (Some w))
           = int (length (filter fst (fst (checks cfg db i (Some m) (Some w) ts))))"
proof -
  note r = checks_run[where m=m and w=w and db=db and i=i and ts=ts and cfg=cfg, OF m w e d win]
  have w0: "w \<noteq> 0" using w by simp
  have cnt: "length (filter fst (fst (checks cfg db i (Some m) (Some w) ts))) = min (length ts) (nat m)"
    unfolding r fst_conv by (simp add: filter_map comp_def count_allowed)
  show ?thesis
  proof (cases "ts = []")
    case True
    then show ?thesis using e w0
      by (simp add: get_usage_def py_or_def redis_defs)
  next
    case False
    let ?as = "take (nat m) ts"
    have ne: "?as \<noteq> []" using False m by (cases ts) (auto simp: take_Cons split: nat.splits)
    have l: "last ts \<in> set ts" using False by simp
    have live: "\<not> last ts + real_of_int w \<le> tu" using u l by fastforce
    have keep: "filter (\<lambda>(m, s). \<not> (0 \<le> s \<and> s \<le> tu - real_of_int w)) (map event ?as) = map event ?as"
      by (rule filter_events_keep) (use u in \<open>auto dest: in_set_takeD\<close>)
    show ?thesis
      unfolding cnt unfolding r snd_conv
      using ne live w0 keep
      by (simp add: get_usage_def py_or_def redis_defs window_record_def)
  qed
qed

lemmas eval_defs = is_allowed_def get_usage_def pipeline_def purge_def zremrangebyscore_def
  zcard_def zadd_def expire_def zrem_def touch_def expired_def put_zset_def window_start_def
  py_or_def py_int_def key_of_def default_config_def Let_def AList.delete_eq

section \<open>Sequential calls: verdicts\<close>

text \<open>
  Claim C1: of calls made one after the other for one identifier and policy \<open>(m, w)\<close>, from
  an empty record and with no event aging out, calls 1 to \<open>m\<close> are allowed and the call
  \<open>m + 1\<close> is rejected. The code breaks this when calls read the same clock value. The
  member of an event is \<^verbatim>\<open>str(current_time)\<close>, so the \<^verbatim>\<open>ZADD\<close> of the second call replaces
  the event of the first and the count stays where it was. Policy (2, 10), three calls that
  all read the clock at 100: the third call is allowed, where \<^verbatim>\<open>max_requests\<close> is 2.
\<close>

theorem same_instant_admits_over_limit:
  "map fst (fst (checks default_config Map.empty ''u'' (Some 2) (Some 10) [100, 100, 100]))
     = [True, True, True]"
proof -
  let ?s = "[''rate_limit:u'' \<mapsto> \<lparr>members = [(Str 100, 100)], expire_at = Some 110\<rparr>]"
  have s1: "is_allowed default_config Map.empty 100 ''u'' (Some 2) (Some 10) =
     ((True, \<lparr>limit = 2, remaining = 1, reset_time = 110, retry_after = 0\<rparr>), ?s)"
    by (simp add: eval_defs)
  have s2: "is_allowed default_config ?s 100 ''u'' (Some 2) (Some 10) =
     ((True, \<lparr>limit = 2, remaining = 0, reset_time = 110, retry_after = 0\<rparr>), ?s)"
    by (simp add: eval_defs)
  show ?thesis by (simp add: s1 s2)
qed

section \<open>Sequential calls: remaining\<close>

text \<open>
  Claim C2: the \<open>k\<close>-th allowed call reports \<^verbatim>\<open>remaining = m - k\<close>. The code breaks this at
  equal clock readings, for the same reason: the count does not grow. Policy (3, 10),
  three calls that all read the clock at 100: all three are allowed, and they report
  2, 1 and again 1, where the third allowed call should report 0.
\<close>

theorem same_instant_remaining_stalls:
  "map (\<lambda>r. (fst r, remaining (snd r)))
     (fst (checks default_config Map.empty ''u'' (Some 3) (Some 10) [100, 100, 100]))
     = [(True, 2), (True, 1), (True, 1)]"
proof -
  let ?s = "[''rate_limit:u'' \<mapsto> \<lparr>members = [(Str 100, 100)], expire_at = Some 110\<rparr>]"
  have s1: "is_allowed default_config Map.empty 100 ''u'' (Some 3) (Some 10) =
     ((True, \<lparr>limit = 3, remaining = 2, reset_time = 110, retry_after = 0\<rparr>), ?s)"
    by (simp add: eval_defs)
  have s2: "is_allowed default_config ?s 100 ''u'' (Some 3) (Some 10) =
     ((True, \<lparr>limit = 3, remaining = 1, reset_time = 110, retry_after = 0\<rparr>), ?s)"
    by (simp add: eval_defs)
  show ?thesis by (simp add: s1 s2)
qed

section \<open>Rejected calls and usage\<close>

text \<open>
  Claim C4: a rejected call does not change the usage. The code breaks this when the
  clock reading of the rejected call is already a member of the record: its \<^verbatim>\<open>ZADD\<close>
  replaces that member, and its \<^verbatim>\<open>ZREM\<close> then removes the event of the earlier, allowed
  request. Policy (1, 10): after one allowed call at 100 the usage is 1; a second call at
  100 is rejected, and the usage is 0. A third call at 101 is then allowed: two requests
  are admitted within one window, where \<^verbatim>\<open>max_requests\<close> is 1.
\<close>

theorem rejected_same_instant_removes_admitted:
  "fst (get_usage default_config
          (snd (is_allowed default_config Map.empty 100 ''u'' (Some 1) (Some 10))) 100 ''u'' (Some 10)) = 1
   \<and> fst (fst (is_allowed default_config
          (snd (is_allowed default_config Map.empty 100 ''u'' (Some 1) (Some 10)))
          100 ''u'' (Some 1) (Some 10))) = False
   \<and> fst (get_usage default_config
          (snd (is_allowed default_config
             (snd (is_allowed default_config Map.empty 100 ''u'' (Some 1) (Some 10)))
             100 ''u'' (Some 1) (Some 10))) 100 ''u'' (Some 10)) = 0
   \<and> map fst (fst (checks default_config Map.empty ''u'' (Some 1) (Some 10) [100, 100, 101]))
       = [True, False, True]"
proof -
  let ?s = "[''rate_limit:u'' \<mapsto> \<lparr>members = [(Str 100, 100)], expire_at = Some 110\<rparr>]"
  have s1: "is_allowed default_config Map.empty 100 ''u'' (Some 1) (Some 10) =
     ((True, \<lparr>limit = 1, remaining = 0, reset_time = 110, retry_after = 0\<rparr>), ?s)"
    by (simp add: eval_defs)
  have s2: "is_allowed default_config ?s 100 ''u'' (Some 1) (Some 10) =
     ((False, \<lparr>limit = 1, remaining = 0, reset_time = 110, retry_after = 10\<rparr>), Map.empty)"
    by (simp add: eval_defs)
  have s3: "is_allowed default_config Map.empty 101 ''u'' (Some 1) (Some 10) =
     ((True, \<lparr>limit = 1, remaining = 0, reset_time = 111, retry_after = 0\<rparr>),
      [''rate_limit:u'' \<mapsto> \<lparr>members = [(Str 101, 101)], expire_at = Some 111\<rparr>])"
    by (simp add: eval_defs)
  have u1: "fst (get_usage default_config ?s 100 ''u'' (Some 10)) = 1"
    by (simp add: eval_defs)
  have u2: "fst (get_usage default_config Map.empty 100 ''u'' (Some 10)) = 0"
    by (simp add: eval_defs)
  have c: "map fst (fst (checks default_config Map.empty ''u'' (Some 1) (Some 10) [100, 100, 101]))
       = [True, False, True]"
    by (simp add: s1 s2 s3)
  show ?thesis unfolding s1 snd_conv s2 fst_conv using u1 u2 c by simp
qed

section \<open>The boundary of the window\<close>

lemma zmembers_zremrangebyscore:
  "zmembers (zremrangebyscore db t key lo hi) t key
     = filter (\<lambda>(m, s). \<not> (lo \<le> s \<and> s \<le> hi)) (zmembers db t key)"
  by (auto simp: zmembers_def zremrangebyscore_def touch_def expired_def put_zset_def Let_def
      split: option.splits if_splits)

lemma zcard_zmembers: "zcard db t key = int (length (zmembers db t key))"
  by (simp add: zcard_def zmembers_def split: option.splits)

lemma purge_removes_window:
  "zmembers (purge db t key w) t key
     = filter (\<lambda>(m, s). \<not> (0 \<le> s \<and> s \<le> t - real_of_int w)) (zmembers db t key)
   \<and> fst (pipeline db t key w)
     = int (length (filter (\<lambda>(m, s). \<not> (0 \<le> s \<and> s \<le> t - real_of_int w)) (zmembers db t key)))
   \<and> get_usage cfg db t i w0
     = (int (length (filter (\<lambda>(m, s). \<not> (0 \<le> s \<and> s \<le> t - real_of_int (py_or w0 (default_window cfg))))
          (zmembers db t (key_of i)))),
        purge db t (key_of i) (py_or w0 (default_window cfg)))"
proof -
  have p: "\<And>w key. zmembers (purge db t key w) t key
     = filter (\<lambda>(m, s). \<not> (0 \<le> s \<and> s \<le> t - real_of_int w)) (zmembers db t key)"
    by (simp add: purge_def window_start_def zmembers_zremrangebyscore)
  show ?thesis
    by (simp add: p pipeline_def get_usage_def Let_def zcard_zmembers)
qed

lemma app_window_start_below:
  fixes fl :: "real \<Rightarrow> real"
  assumes acc: "\<forall>x. 1 / 2 ^ 64 \<le> \<bar>x\<bar> \<and> \<bar>x\<bar> \<le> 2 ^ 64 \<longrightarrow> \<bar>fl x - x\<bar> \<le> \<bar>x\<bar> / 2 ^ 53"
    and c: "1 \<le> c" "c \<le> 1000"
  shows "fl (fl c - fl (1 / 100000)) < c"
proof -
  have r: "\<And>x. 1 / 2 \<le> x \<Longrightarrow> x \<le> 2000 \<Longrightarrow> \<bar>fl x - x\<bar> \<le> x / 2 ^ 53"
  proof -
    fix x :: real
    assume x: "1 / 2 \<le> x" "x \<le> 2000"
    have "1 / 2 ^ 64 \<le> \<bar>x\<bar> \<and> \<bar>x\<bar> \<le> 2 ^ 64" using x by simp
    then have "\<bar>fl x - x\<bar> \<le> \<bar>x\<bar> / 2 ^ 53" using acc by blast
    then show "\<bar>fl x - x\<bar> \<le> x / 2 ^ 53" using x by simp
  qed
  have a: "\<bar>fl c - c\<bar> \<le> c / 2 ^ 53" using c by (intro r) auto
  have "1 / 2 ^ 64 \<le> \<bar>1 / 100000 :: real\<bar> \<and> \<bar>1 / 100000 :: real\<bar> \<le> 2 ^ 64" by simp
  then have "\<bar>fl (1 / 100000) - 1 / 100000\<bar> \<le> \<bar>1 / 100000 :: real\<bar> / 2 ^ 53"
    using acc by blast
  then have e: "\<bar>fl (1 / 100000) - 1 / 100000\<bar> \<le> (1 / 100000) / 2 ^ 53" by simp
  let ?y = "fl c - fl (1 / 100000)"
  have a': "fl c \<le> c + c / 2 ^ 53" "c - c / 2 ^ 53 \<le> fl c"
    using a by (simp_all only: abs_le_iff) linarith+
  have e': "fl (1 / 100000) \<le> 1 / 100000 + (1 / 100000) / 2 ^ 53"
    "1 / 100000 - (1 / 100000) / 2 ^ 53 \<le> fl (1 / 100000)"
    using e by (simp_all only: abs_le_iff) linarith+
  have k1: "c / 2 ^ 53 \<le> 1 / 1000000"
  proof -
    have "c / 2 ^ 53 \<le> 1000 / 2 ^ 53" using c(2) by (simp add: divide_right_mono)
    also have "\<dots> \<le> 1 / 1000000" by simp
    finally show ?thesis .
  qed
  have k2: "(1 / 100000) / 2 ^ 53 \<le> (1 / 1000000 :: real)" by simp
  have y1: "1 / 2 \<le> ?y" using a'(2) e'(1) k1 k2 c(1) by linarith
  have y3: "?y \<le> c - 7 / 1000000" using a'(1) e'(2) k1 k2 by linarith
  have y2: "?y \<le> 2000" using y3 c(2) by linarith
  have f: "\<bar>fl ?y - ?y\<bar> \<le> ?y / 2 ^ 53" using y1 y2 by (rule r)
  have f': "fl ?y \<le> ?y + ?y / 2 ^ 53"
    using f by (simp only: abs_le_iff) linarith
  have k3: "?y / 2 ^ 53 \<le> 1 / 1000000"
  proof -
    have "?y / 2 ^ 53 \<le> 2000 / 2 ^ 53" using y2 by (simp add: divide_right_mono)
    also have "\<dots> \<le> 1 / 1000000" by simp
    finally show ?thesis .
  qed
  show ?thesis
    using f' k3 y3 by linarith
qed


text \<open>
  Claim C3: the purge removes exactly the events with \<open>ts \<le> now - w\<close>, so an event of age
  exactly \<open>w\<close> is purged before counting. \<^verbatim>\<open>rate_limiter.py\<close> does that (for the time stamps
  from 0 on, where its range starts). The copy in \<^verbatim>\<open>app.py\<close> does not: it purges up to
  \<^verbatim>\<open>current_time - window_seconds - 0.00001\<close>. Policy (3, 5): after calls at 100 and 101 the
  record holds both events and expires at 106. At 105 the event of 100 has age exactly 5;
  \<^verbatim>\<open>get_usage\<close> of \<^verbatim>\<open>app.py\<close> keeps it and answers 2, where \<^verbatim>\<open>rate_limiter.py\<close> purges it and
  answers 1. This holds for every rounding \<open>fl\<close> with the relative accuracy of doubles.
\<close>

theorem app_keeps_event_of_age_window:
  fixes fl :: "real \<Rightarrow> real"
  assumes "\<forall>x. 1 / 2 ^ 64 \<le> \<bar>x\<bar> \<and> \<bar>x\<bar> \<le> 2 ^ 64 \<longrightarrow> \<bar>fl x - x\<bar> \<le> \<bar>x\<bar> / 2 ^ 53"
  shows "snd (app_is_allowed fl default_config
          (snd (app_is_allowed fl default_config Map.empty 100 ''u'' (Some 3) (Some 5)))
          101 ''u'' (Some 3) (Some 5))
     = [''rate_limit:u'' \<mapsto> \<lparr>members = [(Str 100, 100), (Str 101, 101)], expire_at = Some 106\<rparr>]
   \<and> (100 :: real) \<le> 105 - 5
   \<and> app_get_usage fl default_config
        [''rate_limit:u'' \<mapsto> \<lparr>members = [(Str 100, 100), (Str 101, 101)], expire_at = Some 106\<rparr>]
        105 ''u'' (Some 5)
     = (2, [''rate_limit:u'' \<mapsto> \<lparr>members = [(Str 100, 100), (Str 101, 101)], expire_at = Some 106\<rparr>])
   \<and> get_usage default_config
        [''rate_limit:u'' \<mapsto> \<lparr>members = [(Str 100, 100), (Str 101, 101)], expire_at = Some 106\<rparr>]
        105 ''u'' (Some 5)
     = (1, [''rate_limit:u'' \<mapsto> \<lparr>members = [(Str 101, 101)], expire_at = Some 106\<rparr>])"
proof -
  let ?s1 = "[''rate_limit:u'' \<mapsto> \<lparr>members = [(Str 100, 100)], expire_at = Some 105\<rparr>]"
  let ?s2 = "[''rate_limit:u'' \<mapsto> \<lparr>members = [(Str 100, 100), (Str 101, 101)], expire_at = Some 106\<rparr>]"
  note app_defs = app_is_allowed_def app_get_usage_def app_pipeline_def app_purge_def
    app_window_start_def
  have b96: "fl (fl 96 - fl (1 / 100000)) < 96"
    using assms by (rule app_window_start_below) simp_all
  have b100: "fl (fl 100 - fl (1 / 100000)) < 100"
    using assms by (rule app_window_start_below) simp_all
  have n1: "\<not> 100 \<le> fl (fl 96 - fl (1 / 100000))" using b96 by simp
  have n2: "\<not> 100 \<le> fl (fl 100 - fl (1 / 100000))" using b100 by simp
  have n3: "\<not> 101 \<le> fl (fl 100 - fl (1 / 100000))" using b100 by simp
  have a1: "snd (app_is_allowed fl default_config Map.empty 100 ''u'' (Some 3) (Some 5)) = ?s1"
    by (simp add: app_defs eval_defs)
  have a2: "snd (app_is_allowed fl default_config ?s1 101 ''u'' (Some 3) (Some 5)) = ?s2"
    using n1 by (simp add: app_defs eval_defs)
  have u: "app_get_usage fl default_config ?s2 105 ''u'' (Some 5) = (2, ?s2)"
    using n2 n3 by (simp add: app_defs eval_defs)
  have r: "get_usage default_config ?s2 105 ''u'' (Some 5)
      = (1, [''rate_limit:u'' \<mapsto> \<lparr>members = [(Str 101, 101)], expire_at = Some 106\<rparr>])"
    by (simp add: eval_defs)
  show ?thesis unfolding a1 a2 using u r by simp
qed

text \<open>With exact arithmetic for \<open>fl\<close>.\<close>

theorem app_keeps_event_of_age_window_witness:
  "app_get_usage (\<lambda>x. x) default_config
        [''rate_limit:u'' \<mapsto> \<lparr>members = [(Str 100, 100), (Str 101, 101)], expire_at = Some 106\<rparr>]
        105 ''u'' (Some 5)
     = (2, [''rate_limit:u'' \<mapsto> \<lparr>members = [(Str 100, 100), (Str 101, 101)], expire_at = Some 106\<rparr>])
   \<and> fst (get_usage default_config
        [''rate_limit:u'' \<mapsto> \<lparr>members = [(Str 100, 100), (Str 101, 101)], expire_at = Some 106\<rparr>]
        105 ''u'' (Some 5)) = 1"
  using app_keeps_event_of_age_window[of "\<lambda>x. x"] by simp

section \<open>Rejected calls and the expiry of the key\<close>

lemma expire_sets_expiry:
  assumes "1 \<le> secs" and "expire db t key secs key = Some v"
  shows "expire_at v = Some (t + real_of_int secs)"
  using assms
  by (auto simp: expire_def touch_def Let_def split: option.splits if_splits)

lemma zrem_keeps_expiry:
  assumes "\<And>v. db key = Some v \<Longrightarrow> expire_at v = e" and "zrem db t key m key = Some v"
  shows "expire_at v = e"
  using assms
  by (auto simp: zrem_def touch_def put_zset_def Let_def split: option.splits if_splits)

lemma expiry_after_call:
  assumes w: "1 \<le> py_or w (default_window cfg)"
    and v: "snd (is_allowed cfg db t i m w) (key_of i) = Some v"
  shows "expire_at v = Some (t + real_of_int (py_or w (default_window cfg)))"
proof -
  let ?W = "py_or w (default_window cfg)"
  let ?k = "key_of i"
  let ?db2 = "zadd (purge db t ?k ?W) t ?k (Str t) t"
  let ?db3 = "expire ?db2 t ?k ?W"
  have p: "pipeline db t ?k ?W = (zcard (purge db t ?k ?W) t ?k, ?db3)"
    by (simp add: pipeline_def Let_def)
  have e: "\<And>v. ?db3 ?k = Some v \<Longrightarrow> expire_at v = Some (t + real_of_int ?W)"
    using expire_sets_expiry[OF w] by blast
  have s: "snd (is_allowed cfg db t i m w) = ?db3
      \<or> snd (is_allowed cfg db t i m w) = zrem ?db3 t ?k (Str t)"
    by (simp add: is_allowed_def p Let_def)
  then show ?thesis
  proof
    assume "snd (is_allowed cfg db t i m w) = ?db3"
    then show ?thesis using e v by simp
  next
    assume a: "snd (is_allowed cfg db t i m w) = zrem ?db3 t ?k (Str t)"
    show ?thesis
      by (rule zrem_keeps_expiry[of ?db3 ?k _ t "Str t"]) (use e a v in auto)
  qed
qed

text \<open>
  Claim C5, as the code has it. The pipeline runs \<^verbatim>\<open>EXPIRE key window_seconds\<close> on every
  call, before the verdict is known, and the \<^verbatim>\<open>ZREM\<close> of a rejected call does not undo it.
  So after a rejected call with a positive window the record, when it still exists,
  expires \<open>window_seconds\<close> after the call: the time-to-live is reset, as it is after an
  allowed call.
\<close>

theorem rejected_check_resets_expiry:
  assumes "\<not> fst (fst (is_allowed cfg db t i m w))"
    and "1 \<le> py_or w (default_window cfg)"
    and "snd (is_allowed cfg db t i m w) (key_of i) = Some v"
  shows "expire_at v = Some (t + real_of_int (py_or w (default_window cfg)))"
  using assms(2,3) by (rule expiry_after_call)

text \<open>Policy (1, 10): the record of an allowed call at 100 expires at 110. A call at 105
  is rejected, and the record then expires at 115.\<close>

theorem rejected_check_resets_expiry_witness:
  "fst (fst (is_allowed default_config
        [''rate_limit:u'' \<mapsto> \<lparr>members = [(Str 100, 100)], expire_at = Some 110\<rparr>]
        105 ''u'' (Some 1) (Some 10))) = False
   \<and> snd (is_allowed default_config
        [''rate_limit:u'' \<mapsto> \<lparr>members = [(Str 100, 100)], expire_at = Some 110\<rparr>]
        105 ''u'' (Some 1) (Some 10)) (key_of ''u'')
      = Some \<lparr>members = [(Str 100, 100)], expire_at = Some 115\<rparr>
   \<and> expire_at \<lparr>members = [(Str 100, 100)], expire_at = Some 115\<rparr> = Some (105 + real_of_int 10)"
proof -
  let ?s = "[''rate_limit:u'' \<mapsto> \<lparr>members = [(Str 100, 100)], expire_at = Some 110\<rparr>]"
  let ?v = "\<lparr>members = [(Str 100, 100)], expire_at = Some 115\<rparr>"
  have c: "is_allowed default_config ?s 105 ''u'' (Some 1) (Some 10) =
      ((False, \<lparr>limit = 1, remaining = 0, reset_time = 115, retry_after = 10\<rparr>),
       [''rate_limit:u'' \<mapsto> ?v])"
    by (simp add: eval_defs)
  have b: "\<not> fst (fst (is_allowed default_config ?s 105 ''u'' (Some 1) (Some 10)))"
    by (simp add: c)
  have w: "1 \<le> py_or (Some 10) (default_window default_config)"
    by (simp add: py_or_def)
  have k: "snd (is_allowed default_config ?s 105 ''u'' (Some 1) (Some 10)) (key_of ''u'') = Some ?v"
    by (simp add: c key_of_def)
  have "expire_at ?v = Some (105 + real_of_int (py_or (Some 10) (default_window default_config)))"
    using rejected_check_resets_expiry[OF b w k] .
  then have "expire_at ?v = Some (105 + real_of_int 10)" by (simp add: py_or_def)
  then show ?thesis using b k by blast
qed

text \<open>The claim as stated fails at the same input: before the rejected call the key
  expires at 110, after it at 115.\<close>

theorem rejected_check_changes_expiry:
  "is_allowed default_config Map.empty 100 ''u'' (Some 1) (Some 10)
     = ((True, \<lparr>limit = 1, remaining = 0, reset_time = 110, retry_after = 0\<rparr>),
        [''rate_limit:u'' \<mapsto> \<lparr>members = [(Str 100, 100)], expire_at = Some 110\<rparr>])
   \<and> is_allowed default_config
        [''rate_limit:u'' \<mapsto> \<lparr>members = [(Str 100, 100)], expire_at = Some 110\<rparr>]
        105 ''u'' (Some 1) (Some 10)
     = ((False, \<lparr>limit = 1, remaining = 0, reset_time = 115, retry_after = 10\<rparr>),
        [''rate_limit:u'' \<mapsto> \<lparr>members = [(Str 100, 100)], expire_at = Some 115\<rparr>])
   \<and> Some (110 :: real) \<noteq> Some 115"
  by (simp add: eval_defs)

section \<open>Policies that are not positive\<close>

lemma zcard_nonneg: "0 \<le> zcard db t key"
  by (simp add: zcard_def split: option.splits)

lemma is_allowed_blocked_negative:
  assumes "m < 0"
  shows "\<exists>md. is_allowed cfg db t i (Some m) w
           = ((False, md),
              zrem (snd (pipeline db t (key_of i) (py_or w (default_window cfg)))) t (key_of i) (Str t))
         \<and> limit md = m \<and> remaining md = 0
         \<and> retry_after md = py_or w (default_window cfg)"
proof -
  have c: "0 \<le> fst (pipeline db t (key_of i) (py_or w (default_window cfg)))"
    by (simp add: pipeline_def Let_def zcard_nonneg)
  have p: "py_or (Some m) (default_requests cfg) = m" using assms by (simp add: py_or_def)
  show ?thesis
    using assms c unfolding is_allowed_def p by (simp add: Let_def split_def)
qed

text \<open>
  Claim C6, as the code has it. \<^verbatim>\<open>is_allowed\<close> validates nothing. A \<^verbatim>\<open>max_requests\<close> or
  \<^verbatim>\<open>window_seconds\<close> of 0 is replaced by the configured default, as \<^verbatim>\<open>None\<close> is. With a
  negative \<^verbatim>\<open>max_requests\<close>, and a window that a float can hold and \<^verbatim>\<open>EXPIRE\<close> accepts, the
  call raises nothing: it runs the pipeline and the \<^verbatim>\<open>ZREM\<close> on the store and returns
  \<^verbatim>\<open>allowed = False\<close> with \<^verbatim>\<open>limit = max_requests\<close>, \<^verbatim>\<open>remaining = 0\<close> and
  \<^verbatim>\<open>retry_after = window_seconds\<close>. With a window that no float can hold the call raises
  \<^verbatim>\<open>OverflowError\<close>, before it touches the store.
\<close>

theorem no_policy_validation:
  "is_allowed_raising cfg db t i (Some 0) w = is_allowed_raising cfg db t i None w
   \<and> is_allowed_raising cfg db t i m (Some 0) = is_allowed_raising cfg db t i m None
   \<and> (m' < 0 \<and> float_of_int_ok (py_or w (default_window cfg))
         \<and> expire_accepts t (py_or w (default_window cfg))
       \<longrightarrow> (\<exists>md. is_allowed_raising cfg db t i (Some m') w
                  = (Inr (False, md),
                     zrem (snd (pipeline db t (key_of i) (py_or w (default_window cfg))))
                       t (key_of i) (Str t))
                \<and> limit md = m' \<and> remaining md = 0
                \<and> retry_after md = py_or w (default_window cfg)))
   \<and> (\<not> float_of_int_ok (py_or w (default_window cfg))
       \<longrightarrow> is_allowed_raising cfg db t i m w = (Inl OverflowError, db))"
proof (intro conjI impI)
  have ia: "is_allowed cfg db t i (Some 0) w = is_allowed cfg db t i None w"
    by (simp add: is_allowed_def py_or_def)
  have ib: "is_allowed cfg db t i m (Some 0) = is_allowed cfg db t i m None"
    by (simp add: is_allowed_def py_or_def)
  have p: "py_or (Some 0) (default_window cfg) = py_or None (default_window cfg)"
    by (simp add: py_or_def)
  show "is_allowed_raising cfg db t i (Some 0) w = is_allowed_raising cfg db t i None w"
    unfolding is_allowed_raising_def ia ..
  show "is_allowed_raising cfg db t i m (Some 0) = is_allowed_raising cfg db t i m None"
    unfolding is_allowed_raising_def ib p ..
  show "is_allowed_raising cfg db t i m w = (Inl OverflowError, db)"
    if "\<not> float_of_int_ok (py_or w (default_window cfg))"
    using that by (simp add: is_allowed_raising_def)
  show "\<exists>md. is_allowed_raising cfg db t i (Some m') w
                  = (Inr (False, md),
                     zrem (snd (pipeline db t (key_of i) (py_or w (default_window cfg))))
                       t (key_of i) (Str t))
                \<and> limit md = m' \<and> remaining md = 0
                \<and> retry_after md = py_or w (default_window cfg)"
    if h: "m' < 0 \<and> float_of_int_ok (py_or w (default_window cfg))
         \<and> expire_accepts t (py_or w (default_window cfg))"
  proof -
    obtain md where md: "is_allowed cfg db t i (Some m') w
           = ((False, md),
              zrem (snd (pipeline db t (key_of i) (py_or w (default_window cfg)))) t (key_of i) (Str t))"
      "limit md = m'" "remaining md = 0" "retry_after md = py_or w (default_window cfg)"
      using is_allowed_blocked_negative[of m' cfg db t i w] h by blast
    show ?thesis
      using h md by (simp add: is_allowed_raising_def)
  qed
qed

text \<open>On the record of one event at 100, a call at 105 with \<^verbatim>\<open>max_requests = -1\<close> and
  window 10 returns a verdict and moves the expiry of the key; with a window of
  \<open>2 ^ 1024\<close> seconds the call raises \<^verbatim>\<open>OverflowError\<close>.\<close>

theorem no_policy_validation_witness:
  "(-1 :: int) < 0 \<and> float_of_int_ok 10 \<and> expire_accepts 105 10
   \<and> (\<exists>md. is_allowed_raising default_config
          [''rate_limit:u'' \<mapsto> \<lparr>members = [(Str 100, 100)], expire_at = Some 110\<rparr>]
          105 ''u'' (Some (-1)) (Some 10)
        = (Inr (False, md),
           [''rate_limit:u'' \<mapsto> \<lparr>members = [(Str 100, 100)], expire_at = Some 115\<rparr>])
      \<and> limit md = -1 \<and> remaining md = 0 \<and> retry_after md = 10)
   \<and> is_allowed_raising default_config
          [''rate_limit:u'' \<mapsto> \<lparr>members = [(Str 100, 100)], expire_at = Some 110\<rparr>]
          105 ''u'' (Some (-1)) (Some (2 ^ 1024))
        = (Inl OverflowError,
           [''rate_limit:u'' \<mapsto> \<lparr>members = [(Str 100, 100)], expire_at = Some 110\<rparr>])"
proof -
  let ?s = "[''rate_limit:u'' \<mapsto> \<lparr>members = [(Str 100, 100)], expire_at = Some 110\<rparr>]"
  let ?s' = "[''rate_limit:u'' \<mapsto> \<lparr>members = [(Str 100, 100)], expire_at = Some 115\<rparr>]"
  have w: "py_or (Some 10) (default_window default_config) = 10" by (simp add: py_or_def)
  have w2: "py_or (Some (2 ^ 1024)) (default_window default_config) = 2 ^ 1024"
    by (simp add: py_or_def)
  have f: "float_of_int_ok 10" by (simp add: float_of_int_ok_def)
  have nf: "\<not> float_of_int_ok (2 ^ 1024)" by (simp add: float_of_int_ok_def)
  have e: "expire_accepts 105 10" by (simp add: expire_accepts_def)
  have st: "zrem (snd (pipeline ?s 105 (key_of ''u'') 10)) 105 (key_of ''u'') (Str 105) = ?s'"
    by (simp add: eval_defs)
  note th = no_policy_validation[where m'="-1" and cfg=default_config and t=105 and i="''u''"
      and db="?s"]
  have a: "\<exists>md. is_allowed_raising default_config ?s 105 ''u'' (Some (-1)) (Some 10)
        = (Inr (False, md), ?s') \<and> limit md = -1 \<and> remaining md = 0 \<and> retry_after md = 10"
    using th[where w="Some 10"] f e unfolding w st by simp
  have b: "is_allowed_raising default_config ?s 105 ''u'' (Some (-1)) (Some (2 ^ 1024))
        = (Inl OverflowError, ?s)"
    using th[where w="Some (2 ^ 1024)" and m="Some (-1)"] nf unfolding w2 by blast
  show ?thesis using f e a b by simp
qed

text \<open>
  The claim as stated fails: with \<^verbatim>\<open>max_requests = -1\<close>, and with \<^verbatim>\<open>window_seconds = -5\<close>,
  the call raises nothing and returns a verdict, and the store is not what it was (the expiry
  of the key moves from 110 to 115; the negative window deletes the key).
\<close>

theorem invalid_policy_runs_pipeline:
  "is_allowed_raising default_config
        [''rate_limit:u'' \<mapsto> \<lparr>members = [(Str 100, 100)], expire_at = Some 110\<rparr>]
        105 ''u'' (Some (-1)) (Some 10)
     = (Inr (False, \<lparr>limit = -1, remaining = 0, reset_time = 115, retry_after = 10\<rparr>),
        [''rate_limit:u'' \<mapsto> \<lparr>members = [(Str 100, 100)], expire_at = Some 115\<rparr>])
   \<and> [''rate_limit:u'' \<mapsto> \<lparr>members = [(Str 100, 100)], expire_at = Some (115 :: real)\<rparr>] ''rate_limit:u''
     \<noteq> [''rate_limit:u'' \<mapsto> \<lparr>members = [(Str 100, 100)], expire_at = Some 110\<rparr>] ''rate_limit:u''
   \<and> is_allowed_raising default_config
        [''rate_limit:u'' \<mapsto> \<lparr>members = [(Str 100, 100)], expire_at = Some 110\<rparr>]
        105 ''u'' (Some 3) (Some (-5))
     = (Inr (True, \<lparr>limit = 3, remaining = 2, reset_time = 100, retry_after = 0\<rparr>), Map.empty)"
proof -
  let ?s = "[''rate_limit:u'' \<mapsto> \<lparr>members = [(Str 100, 100)], expire_at = Some 110\<rparr>]"
  have g: "float_of_int_ok 10" "float_of_int_ok (- 5)" "expire_accepts 105 10"
    "expire_accepts 105 (- 5)"
    by (simp_all add: float_of_int_ok_def expire_accepts_def)
  have w: "py_or (Some 10) (default_window default_config) = 10"
    "py_or (Some (- 5)) (default_window default_config) = - 5"
    by (simp_all add: py_or_def)
  have a: "is_allowed default_config ?s 105 ''u'' (Some (-1)) (Some 10)
     = ((False, \<lparr>limit = -1, remaining = 0, reset_time = 115, retry_after = 10\<rparr>),
        [''rate_limit:u'' \<mapsto> \<lparr>members = [(Str 100, 100)], expire_at = Some 115\<rparr>])"
    by (simp add: eval_defs)
  have b: "is_allowed default_config ?s 105 ''u'' (Some 3) (Some (-5))
     = ((True, \<lparr>limit = 3, remaining = 2, reset_time = 100, retry_after = 0\<rparr>), Map.empty)"
    by (simp add: eval_defs)
  show ?thesis
    by (simp add: is_allowed_raising_def w g a b)
qed

section \<open>Reset\<close>

lemma reset_removes_key: "snd (reset db t i) (key_of i) = None"
  by (simp add: reset_def delete_def Let_def)

lemma is_allowed_absent:
  assumes "db (key_of i) = None" and "1 \<le> m"
  shows "fst (is_allowed cfg db t i (Some m) w)
           = (True, \<lparr>limit = m, remaining = m - 1,
                     reset_time = py_int (t + real_of_int (py_or w (default_window cfg))),
                     retry_after = 0\<rparr>)"
proof -
  have c: "fst (pipeline db t (key_of i) (py_or w (default_window cfg))) = 0"
    using assms(1)
    by (simp add: pipeline_def purge_def zremrangebyscore_def zcard_def touch_def expired_def
        Let_def)
  have p: "py_or (Some m) (default_requests cfg) = m" using assms(2) by (simp add: py_or_def)
  show ?thesis
    using assms(2) c unfolding is_allowed_def p by (simp add: Let_def split_def)
qed

text \<open>
  Claim C7. Whatever the store holds and whenever the two calls are made, \<^verbatim>\<open>reset\<close> for an
  identifier followed by \<^verbatim>\<open>is_allowed\<close> for it with \<^verbatim>\<open>max_requests = m \<ge> 1\<close> (and any
  window) returns \<^verbatim>\<open>allowed = True\<close> with \<^verbatim>\<open>remaining = m - 1\<close>: the key is gone, so the call
  counts 0 events.
\<close>

theorem reset_then_check:
  assumes "1 \<le> m"
  shows "fst (is_allowed cfg (snd (reset db t0 i)) t i (Some m) w)
           = (True, \<lparr>limit = m, remaining = m - 1,
                     reset_time = py_int (t + real_of_int (py_or w (default_window cfg))),
                     retry_after = 0\<rparr>)"
  using reset_removes_key assms by (rule is_allowed_absent)

text \<open>Policy (3, 5): on the record of the events 0, 1, 2 a call at 3 is rejected; after
  \<^verbatim>\<open>reset\<close>, which finds the key, the call at 3 is allowed with \<^verbatim>\<open>remaining = 2\<close>.\<close>

theorem reset_then_check_witness:
  "fst (fst (is_allowed default_config
        [''rate_limit:u'' \<mapsto> \<lparr>members = [(Str 0, 0), (Str 1, 1), (Str 2, 2)], expire_at = Some 7\<rparr>]
        3 ''u'' (Some 3) (Some 5))) = False
   \<and> fst (reset
        [''rate_limit:u'' \<mapsto> \<lparr>members = [(Str 0, 0), (Str 1, 1), (Str 2, 2)], expire_at = Some 7\<rparr>]
        3 ''u'') = True
   \<and> fst (is_allowed default_config (snd (reset
        [''rate_limit:u'' \<mapsto> \<lparr>members = [(Str 0, 0), (Str 1, 1), (Str 2, 2)], expire_at = Some 7\<rparr>]
        3 ''u'')) 3 ''u'' (Some 3) (Some 5))
      = (True, \<lparr>limit = 3, remaining = 2, reset_time = 8, retry_after = 0\<rparr>)"
proof -
  let ?db = "[''rate_limit:u'' \<mapsto> \<lparr>members = [(Str 0, 0), (Str 1, 1), (Str 2, 2)], expire_at = Some 7\<rparr>]"
  have v: "fst (fst (is_allowed default_config ?db 3 ''u'' (Some 3) (Some 5))) = False"
    by (simp add: eval_defs)
  have r: "fst (reset ?db 3 ''u'') = True"
    by (simp add: reset_def delete_def touch_def expired_def key_of_def Let_def)
  have m: "(1 :: int) \<le> 3" by simp
  have "fst (is_allowed default_config (snd (reset ?db 3 ''u'')) 3 ''u'' (Some 3) (Some 5))
      = (True, \<lparr>limit = 3, remaining = 2, reset_time = 8, retry_after = 0\<rparr>)"
    using reset_then_check[OF m, of default_config ?db 3 "''u''" 3 "Some 5"]
    by (simp add: py_or_def py_int_def)
  then show ?thesis using v r by blast
qed

section \<open>Two events at one clock reading\<close>

lemma update_member_length: "(k, b) \<in> set xs \<Longrightarrow> length (AList.update k v xs) = length xs"
  by (induction xs) auto

lemma zadd_present:
  assumes "m \<in> fst ` set (zmembers db t key)"
  shows "zcard (zadd db t key m s) t key = zcard db t key"
  using assms
  by (auto simp: zmembers_def zcard_def zadd_def touch_def expired_def Let_def
      update_member_length split: option.splits if_splits)

lemma zcard_expire:
  assumes "1 \<le> secs"
  shows "zcard (expire db t key secs) t key = zcard db t key"
  using assms
  by (auto simp: zcard_def expire_def touch_def expired_def Let_def
      split: option.splits if_splits)

text \<open>
  Claim C10. When the clock reading of a call is already a member of the record (after the
  purge), \<^verbatim>\<open>ZADD\<close> replaces that member and adds none: the number of members is the same
  after the insert as before it. So when such a call is allowed (window positive), the
  record holds after the call as many events as the call counted before its insert: the
  two requests at that reading are one event.
\<close>

theorem same_instant_event_replaced:
  assumes "Str t \<in> fst ` set (zmembers (purge db t (key_of i) (py_or w (default_window cfg))) t (key_of i))"
    and "fst (fst (is_allowed cfg db t i m w))"
    and "1 \<le> py_or w (default_window cfg)"
  shows "zcard (zadd (purge db t (key_of i) (py_or w (default_window cfg))) t (key_of i) (Str t) t)
             t (key_of i)
           = zcard (purge db t (key_of i) (py_or w (default_window cfg))) t (key_of i)
       \<and> zcard (snd (is_allowed cfg db t i m w)) t (key_of i)
           = zcard (purge db t (key_of i) (py_or w (default_window cfg))) t (key_of i)"
proof -
  let ?W = "py_or w (default_window cfg)"
  let ?k = "key_of i"
  let ?db1 = "purge db t ?k ?W"
  let ?db2 = "zadd ?db1 t ?k (Str t) t"
  let ?db3 = "expire ?db2 t ?k ?W"
  have a: "zcard ?db2 t ?k = zcard ?db1 t ?k" using assms(1) by (rule zadd_present)
  have p: "pipeline db t ?k ?W = (zcard ?db1 t ?k, ?db3)"
    by (simp add: pipeline_def Let_def)
  have al: "zcard ?db1 t ?k < py_or m (default_requests cfg)"
    using assms(2) by (simp add: is_allowed_def p Let_def)
  have s: "snd (is_allowed cfg db t i m w) = ?db3"
    using al by (simp add: is_allowed_def p Let_def)
  show ?thesis
    unfolding s using a zcard_expire[OF assms(3), of ?db2 t ?k] by simp
qed

text \<open>Policy (2, 10): the record of an allowed call at 100 holds one event; a second call
  at 100 is allowed, and the record still holds one event.\<close>

theorem same_instant_event_replaced_witness:
  "fst (fst (is_allowed default_config
        [''rate_limit:u'' \<mapsto> \<lparr>members = [(Str 100, 100)], expire_at = Some 110\<rparr>]
        100 ''u'' (Some 2) (Some 10))) = True
   \<and> zcard [''rate_limit:u'' \<mapsto> \<lparr>members = [(Str 100, 100)], expire_at = Some 110\<rparr>]
        100 (key_of ''u'') = 1
   \<and> zcard (snd (is_allowed default_config
        [''rate_limit:u'' \<mapsto> \<lparr>members = [(Str 100, 100)], expire_at = Some 110\<rparr>]
        100 ''u'' (Some 2) (Some 10))) 100 (key_of ''u'') = 1"
proof -
  let ?db = "[''rate_limit:u'' \<mapsto> \<lparr>members = [(Str 100, 100)], expire_at = Some 110\<rparr>]"
  have pg: "purge ?db 100 (key_of ''u'') (py_or (Some 10) (default_window default_config)) = ?db"
    by (simp add: eval_defs)
  have h1: "Str 100 \<in> fst ` set (zmembers (purge ?db 100 (key_of ''u'')
        (py_or (Some 10) (default_window default_config))) 100 (key_of ''u''))"
    unfolding pg by (simp add: zmembers_def touch_def expired_def key_of_def)
  have h2: "fst (fst (is_allowed default_config ?db 100 ''u'' (Some 2) (Some 10)))"
    by (simp add: eval_defs)
  have h3: "1 \<le> py_or (Some 10) (default_window default_config)"
    by (simp add: py_or_def)
  have c: "zcard ?db 100 (key_of ''u'') = 1"
    by (simp add: zcard_def touch_def expired_def key_of_def)
  have "zcard (snd (is_allowed default_config ?db 100 ''u'' (Some 2) (Some 10))) 100 (key_of ''u'') = 1"
    using same_instant_event_replaced[OF h1 h2 h3, THEN conjunct2] unfolding pg c .
  then show ?thesis using h2 c by blast
qed

section \<open>Identifiers do not interfere\<close>

subsection \<open>Every command reads and writes one key\<close>

lemma key_of_inj: "key_of i = key_of j \<longleftrightarrow> i = j"
  by (simp add: key_of_def)

lemma zremrangebyscore_frame: "k \<noteq> key \<Longrightarrow> zremrangebyscore db t key lo hi k = db k"
  by (simp add: zremrangebyscore_def touch_def put_zset_def Let_def split: option.splits)

lemma zremrangebyscore_local:
  "db key = db' key \<Longrightarrow> zremrangebyscore db t key lo hi key = zremrangebyscore db' t key lo hi key"
  by (simp add: zremrangebyscore_def touch_def expired_def put_zset_def Let_def split: option.splits)

lemma zcard_local: "db key = db' key \<Longrightarrow> zcard db t key = zcard db' t key"
  by (simp add: zcard_def touch_def expired_def)

lemma zadd_frame: "k \<noteq> key \<Longrightarrow> zadd db t key m s k = db k"
  by (simp add: zadd_def touch_def Let_def split: option.splits)

lemma zadd_local: "db key = db' key \<Longrightarrow> zadd db t key m s key = zadd db' t key m s key"
  by (simp add: zadd_def touch_def expired_def Let_def split: option.splits)

lemma expire_frame: "k \<noteq> key \<Longrightarrow> expire db t key secs k = db k"
  by (simp add: expire_def touch_def Let_def split: option.splits)

lemma expire_local: "db key = db' key \<Longrightarrow> expire db t key secs key = expire db' t key secs key"
  by (simp add: expire_def touch_def expired_def Let_def split: option.splits)

lemma zrem_frame: "k \<noteq> key \<Longrightarrow> zrem db t key m k = db k"
  by (simp add: zrem_def touch_def put_zset_def Let_def split: option.splits)

lemma zrem_local: "db key = db' key \<Longrightarrow> zrem db t key m key = zrem db' t key m key"
  by (simp add: zrem_def touch_def expired_def put_zset_def Let_def split: option.splits)

lemma delete_frame: "k \<noteq> key \<Longrightarrow> snd (delete db t key) k = db k"
  by (simp add: delete_def touch_def Let_def)

lemma delete_local:
  "db key = db' key \<Longrightarrow> fst (delete db t key) = fst (delete db' t key)
     \<and> snd (delete db t key) key = snd (delete db' t key) key"
  by (simp add: delete_def touch_def expired_def Let_def)

lemma pipeline_frame: "k \<noteq> key \<Longrightarrow> snd (pipeline db t key w) k = db k"
  by (simp add: pipeline_def purge_def Let_def expire_frame zadd_frame zremrangebyscore_frame)

lemma pipeline_local:
  assumes "db key = db' key"
  shows "fst (pipeline db t key w) = fst (pipeline db' t key w)
     \<and> snd (pipeline db t key w) key = snd (pipeline db' t key w) key"
proof -
  have 1: "purge db t key w key = purge db' t key w key"
    unfolding purge_def using assms by (rule zremrangebyscore_local)
  have 2: "zadd (purge db t key w) t key (Str t) t key = zadd (purge db' t key w) t key (Str t) t key"
    using 1 by (rule zadd_local)
  show ?thesis
    using zcard_local[of "purge db t key w" key "purge db' t key w" t, OF 1]
      expire_local[of "zadd (purge db t key w) t key (Str t) t" key
        "zadd (purge db' t key w) t key (Str t) t" t w, OF 2]
    by (simp add: pipeline_def Let_def)
qed

subsection \<open>The three operations\<close>

lemma is_allowed_frame: "k \<noteq> key_of i \<Longrightarrow> snd (is_allowed cfg db t i m w) k = db k"
  by (simp add: is_allowed_def Let_def split_def zrem_frame pipeline_frame)

lemma is_allowed_local:
  assumes "db (key_of i) = db' (key_of i)"
  shows "fst (is_allowed cfg db t i m w) = fst (is_allowed cfg db' t i m w)
     \<and> snd (is_allowed cfg db t i m w) (key_of i) = snd (is_allowed cfg db' t i m w) (key_of i)"
proof -
  let ?W = "py_or w (default_window cfg)"
  note p = pipeline_local[of db "key_of i" db' t ?W, OF assms]
  have z: "zrem (snd (pipeline db t (key_of i) ?W)) t (key_of i) (Str t) (key_of i)
      = zrem (snd (pipeline db' t (key_of i) ?W)) t (key_of i) (Str t) (key_of i)"
    using p by (intro zrem_local) simp
  show ?thesis
    using p z by (simp add: is_allowed_def Let_def split_def)
qed

lemma exec_frame: "k \<noteq> key_of (ident c) \<Longrightarrow> snd (exec cfg db c) k = db k"
  by (cases c)
    (simp_all add: split_def is_allowed_frame reset_def delete_frame get_usage_def purge_def
      zremrangebyscore_frame Let_def)

lemma exec_local:
  assumes "db (key_of (ident c)) = db' (key_of (ident c))"
  shows "fst (exec cfg db c) = fst (exec cfg db' c)
     \<and> snd (exec cfg db c) (key_of (ident c)) = snd (exec cfg db' c) (key_of (ident c))"
proof (cases c)
  case (Check i m w t)
  then show ?thesis using assms is_allowed_local[of db i db' cfg t m w]
    by (simp add: split_def Let_def)
next
  case (Reset i t)
  then show ?thesis using assms delete_local[of db "key_of i" db' t]
    by (simp add: split_def reset_def Let_def)
next
  case (Usage i w t)
  let ?W = "py_or w (default_window cfg)"
  have 1: "purge db t (key_of i) ?W (key_of i) = purge db' t (key_of i) ?W (key_of i)"
    unfolding purge_def using assms Usage by (intro zremrangebyscore_local) simp
  show ?thesis
    using Usage 1 zcard_local[of "purge db t (key_of i) ?W" "key_of i" "purge db' t (key_of i) ?W" t, OF 1]
    by (simp add: split_def get_usage_def Let_def)
qed

subsection \<open>Runs\<close>

lemma replies_for_Cons:
  "replies_for i cfg db (c # cs)
     = (if ident c = i then [fst (exec cfg db c)] else [])
        @ replies_for i cfg (snd (exec cfg db c)) cs"
  by (simp add: replies_for_def split_def Let_def)

lemma replies_for_own_calls:
  "db (key_of i) = db' (key_of i) \<Longrightarrow>
     replies_for i cfg db cs = fst (run cfg db' (filter (\<lambda>c. ident c = i) cs))"
proof (induction cs arbitrary: db db')
  case Nil
  show ?case by (simp add: replies_for_def)
next
  case (Cons c cs)
  show ?case
  proof (cases "ident c = i")
    case True
    have l: "fst (exec cfg db c) = fst (exec cfg db' c)"
      "snd (exec cfg db c) (key_of i) = snd (exec cfg db' c) (key_of i)"
      using exec_local[of db c db' cfg] Cons.prems True by auto
    show ?thesis
      using True l(1) Cons.IH[of "snd (exec cfg db c)" "snd (exec cfg db' c)", OF l(2)]
      by (simp add: replies_for_Cons split_def Let_def)
  next
    case False
    then have "key_of i \<noteq> key_of (ident c)" by (simp add: key_of_inj)
    then have "snd (exec cfg db c) (key_of i) = db' (key_of i)"
      using exec_frame[of "key_of i" c cfg db] Cons.prems by simp
    then have "replies_for i cfg (snd (exec cfg db c)) cs
        = fst (run cfg db' (filter (\<lambda>c. ident c = i) cs))"
      by (rule Cons.IH)
    then show ?thesis
      using False by (simp add: replies_for_Cons)
  qed
qed

text \<open>
  Claim C8. Take two different identifiers \<open>id1\<close> and \<open>id2\<close> and two runs of calls
  (\<^verbatim>\<open>is_allowed\<close>, \<^verbatim>\<open>reset\<close>, \<^verbatim>\<open>get_usage\<close>, each with its clock reading) from the same store
  that differ only in the calls made for \<open>id1\<close>: the calls for all other identifiers are the
  same, in the same order. Then the replies to the calls for \<open>id2\<close> (verdict and metadata,
  count, reset result) are the same in both runs.
\<close>

theorem identifiers_independent:
  assumes "id1 \<noteq> id2"
    and "filter (\<lambda>c. ident c \<noteq> id1) cs1 = filter (\<lambda>c. ident c \<noteq> id1) cs2"
  shows "replies_for id2 cfg db cs1 = replies_for id2 cfg db cs2"
proof -
  have f: "\<And>cs. filter (\<lambda>c. ident c = id2) cs
      = filter (\<lambda>c. ident c = id2) (filter (\<lambda>c. ident c \<noteq> id1) cs)"
    using assms(1) by (auto intro: filter_cong)
  have "filter (\<lambda>c. ident c = id2) cs1 = filter (\<lambda>c. ident c = id2) cs2"
    using f[of cs1] f[of cs2] assms(2) by simp
  then show ?thesis
    using replies_for_own_calls[of db id2 db cfg cs1] replies_for_own_calls[of db id2 db cfg cs2]
    by simp
qed

text \<open>Policy (1, 10). In the first run \<open>a\<close> uses up its quota before \<open>b\<close> calls; in the
  second \<open>a\<close> only resets. The replies to \<open>b\<close> are the same: allowed with
  \<^verbatim>\<open>remaining = 0\<close>, then usage 1.\<close>

theorem identifiers_independent_witness:
  "''a'' \<noteq> ''b''
   \<and> replies_for ''b'' default_config Map.empty
        [Check ''a'' (Some 1) (Some 10) 100, Check ''a'' (Some 1) (Some 10) 101,
         Check ''b'' (Some 1) (Some 10) 102, Usage ''b'' (Some 10) 103]
     = replies_for ''b'' default_config Map.empty
        [Check ''b'' (Some 1) (Some 10) 102, Reset ''a'' 102, Usage ''b'' (Some 10) 103]
   \<and> replies_for ''b'' default_config Map.empty
        [Check ''b'' (Some 1) (Some 10) 102, Reset ''a'' 102, Usage ''b'' (Some 10) 103]
     = [Verdict True \<lparr>limit = 1, remaining = 0, reset_time = 112, retry_after = 0\<rparr>, Count 1]"
proof -
  let ?cs1 = "[Check ''a'' (Some 1) (Some 10) 100, Check ''a'' (Some 1) (Some 10) 101,
         Check ''b'' (Some 1) (Some 10) 102, Usage ''b'' (Some 10) 103]"
  let ?cs2 = "[Check ''b'' (Some 1) (Some 10) 102, Reset ''a'' 102, Usage ''b'' (Some 10) 103]"
  let ?s = "[''rate_limit:b'' \<mapsto> \<lparr>members = [(Str 102, 102)], expire_at = Some 112\<rparr>]"
  have n: "''a'' \<noteq> ''b''" by simp
  have f: "filter (\<lambda>c. ident c \<noteq> ''a'') ?cs1 = filter (\<lambda>c. ident c \<noteq> ''a'') ?cs2" by simp
  have e: "replies_for ''b'' default_config Map.empty ?cs1
      = replies_for ''b'' default_config Map.empty ?cs2"
    using identifiers_independent[OF n f] .
  have s1: "is_allowed default_config Map.empty 102 ''b'' (Some 1) (Some 10) =
      ((True, \<lparr>limit = 1, remaining = 0, reset_time = 112, retry_after = 0\<rparr>), ?s)"
    by (simp add: eval_defs)
  have s2: "reset ?s 102 ''a'' = (False, ?s)"
    by (simp add: reset_def delete_def touch_def expired_def key_of_def Let_def)
  have s3: "fst (get_usage default_config ?s 103 ''b'' (Some 10)) = 1"
    by (simp add: eval_defs)
  have v: "replies_for ''b'' default_config Map.empty ?cs2
      = [Verdict True \<lparr>limit = 1, remaining = 0, reset_time = 112, retry_after = 0\<rparr>, Count 1]"
    using s3 by (simp add: replies_for_def s1 s2 split_def)
  show ?thesis using n e v by blast
qed

section \<open>Concurrent calls\<close>

lemma is_allowed_two_commands:
  "is_allowed cfg db t i m w =
     (fst (is_allowed_execute cfg db t i m w),
      is_allowed_retract (snd (is_allowed_execute cfg db t i m w)) t i
        (fst (fst (is_allowed_execute cfg db t i m w))))"
  by (simp add: is_allowed_def is_allowed_execute_def is_allowed_retract_def Let_def split_def)

lemma execute_first:
  assumes "db (key_of i) = None" and "1 \<le> w"
  shows "is_allowed_execute cfg db t i (Some 1) (Some w) =
    ((True, \<lparr>limit = 1, remaining = 0, reset_time = py_int (t + real_of_int w), retry_after = 0\<rparr>),
     db(key_of i \<mapsto> \<lparr>members = [(Str t, t)], expire_at = Some (t + real_of_int w)\<rparr>))"
  using assms
  by (auto simp: is_allowed_execute_def py_or_def pipeline_def purge_def zremrangebyscore_def
      zcard_def zadd_def expire_def touch_def expired_def)

lemma execute_second:
  assumes "db (key_of i) = Some \<lparr>members = [(Str t1, t1)], expire_at = Some (t1 + real_of_int w)\<rparr>"
    and "\<bar>t1 - t2\<bar> < real_of_int w" and "1 \<le> w"
  shows "fst (fst (is_allowed_execute cfg db t2 i (Some 1) (Some w))) = False"
proof -
  have live: "\<not> t1 + real_of_int w \<le> t2" and keep: "\<not> t1 \<le> t2 - real_of_int w"
    using assms(2) by auto
  have z: "zmembers db t2 (key_of i) = [(Str t1, t1)]"
    using assms(1) live by (simp add: zmembers_def touch_def expired_def)
  have "zcard (purge db t2 (key_of i) w) t2 (key_of i) = 1"
    using keep
    by (simp add: zcard_zmembers purge_def window_start_def zmembers_zremrangebyscore z)
  then show ?thesis
    using assms(3) by (simp add: is_allowed_execute_def pipeline_def py_or_def Let_def)
qed

lemma serve_Execute:
  "serve cfg rq (db, out) (Execute c) =
     (snd (is_allowed_execute cfg db (req_time (rq c)) (req_identifier (rq c))
             (req_max (rq c)) (req_window (rq c))),
      out(c \<mapsto> fst (is_allowed_execute cfg db (req_time (rq c)) (req_identifier (rq c))
             (req_max (rq c)) (req_window (rq c)))))"
  by (simp add: split_def Let_def)

lemma serve_Retract_out: "snd (serve cfg rq (db, out) (Retract c)) = out"
  by (simp split: option.splits)

lemma serve_Retract_allowed:
  "out c = Some (True, md) \<Longrightarrow> serve cfg rq (db, out) (Retract c) = (db, out)"
  by (simp add: is_allowed_retract_def)

lemma race_first_then_second:
  assumes w: "1 \<le> w" and e: "db (key_of i) = None" and d: "\<bar>ta - tb\<bar> < real_of_int w"
    and ab: "a \<noteq> b"
    and ra: "req_identifier (rq a) = i" "req_max (rq a) = Some 1" "req_window (rq a) = Some w"
      "req_time (rq a) = ta"
    and rb: "req_identifier (rq b) = i" "req_max (rq b) = Some 1" "req_window (rq b) = Some w"
      "req_time (rq b) = tb"
    and sch: "cmds \<in> {[Execute a, Retract a, Execute b, Retract b],
        [Execute a, Execute b, Retract a, Retract b],
        [Execute a, Execute b, Retract b, Retract a]}"
  shows "\<exists>x y. snd (schedule cfg rq db cmds) a = Some x \<and> snd (schedule cfg rq db cmds) b = Some y
      \<and> fst x \<and> \<not> fst y"
proof -
  let ?md = "\<lparr>limit = 1, remaining = 0, reset_time = py_int (ta + real_of_int w), retry_after = 0\<rparr>"
  let ?D1 = "db(key_of i \<mapsto> \<lparr>members = [(Str ta, ta)], expire_at = Some (ta + real_of_int w)\<rparr>)"
  let ?X = "is_allowed_execute cfg ?D1 tb i (Some 1) (Some w)"
  let ?out1 = "[a \<mapsto> (True, ?md)]"
  let ?out2 = "[a \<mapsto> (True, ?md), b \<mapsto> fst ?X]"
  have s1: "serve cfg rq (db, Map.empty) (Execute a) = (?D1, ?out1)"
    by (simp only: serve_Execute ra execute_first[of db i w cfg ta, OF e w] fst_conv snd_conv)
  have x: "fst (fst ?X) = False"
    by (rule execute_second[where ?t1.0=ta]) (use d w in auto)
  have s2: "\<And>out. serve cfg rq (?D1, out) (Execute b) = (snd ?X, out(b \<mapsto> fst ?X))"
    by (simp only: serve_Execute rb)
  have r1: "serve cfg rq (?D1, ?out1) (Retract a) = (?D1, ?out1)"
    by (rule serve_Retract_allowed) simp
  have r2: "\<And>D. serve cfg rq (D, ?out2) (Retract a) = (D, ?out2)"
    by (rule serve_Retract_allowed) (use ab in simp)
  have o: "\<And>D c. snd (serve cfg rq (D, ?out2) (Retract c)) = ?out2"
    by (rule serve_Retract_out)
  have fin: "snd (schedule cfg rq db cmds) = ?out2"
  proof -
    consider "cmds = [Execute a, Retract a, Execute b, Retract b]"
      | "cmds = [Execute a, Execute b, Retract a, Retract b]"
      | "cmds = [Execute a, Execute b, Retract b, Retract a]"
      using sch by blast
    then show ?thesis
    proof cases
      case 1
      show ?thesis unfolding 1 schedule_def foldl.simps s1 r1 s2 by (rule o)
    next
      case 2
      show ?thesis unfolding 2 schedule_def foldl.simps s1 s2 r2 by (rule o)
    next
      case 3
      have "serve cfg rq (serve cfg rq (snd ?X, ?out2) (Retract b)) (Retract a)
          = serve cfg rq (fst (serve cfg rq (snd ?X, ?out2) (Retract b)), ?out2) (Retract a)"
        using o[of "snd ?X" b] by (metis prod.collapse)
      then show ?thesis unfolding 3 schedule_def foldl.simps s1 s2 by (simp only: r2 snd_conv)
    qed
  qed
  show ?thesis
    unfolding fin using ab x by simp
qed

lemma shuffles_two_clients:
  "shuffles [Execute 0, Retract 0] [Execute 1, Retract 1] =
     {[Execute 0, Retract 0, Execute 1, Retract 1],
      [Execute 0, Execute 1, Retract 0, Retract 1],
      [Execute 0, Execute 1, Retract 1, Retract 0],
      [Execute 1, Retract 1, Execute 0, Retract 0],
      [Execute 1, Execute 0, Retract 1, Retract 0],
      [Execute 1, Execute 0, Retract 0, Retract 1]}"
  by auto


text \<open>
  Claim C9, as the code has it. The four commands of the pipeline run as one step, but the
  retraction of a rejected call is a later, separate step: a call is \<^verbatim>\<open>is_allowed_execute\<close>
  followed by \<^verbatim>\<open>is_allowed_retract\<close>. For policy \<open>(1, w)\<close>, two clients calling for the same
  identifier on a key that does not exist, with clock readings less than \<open>w\<close> apart: in
  every order in which the server can receive their four commands, both are answered and
  exactly one of them is allowed.
\<close>

theorem one_slot_race:
  assumes "1 \<le> w" and "db (key_of i) = None" and "\<bar>ta - tb\<bar> < real_of_int w"
    and "cmds \<in> shuffles [Execute 0, Retract 0] [Execute 1, Retract 1]"
  shows "(\<exists>x y. snd (schedule cfg (two_clients i (Some 1) (Some w) ta tb) db cmds) 0 = Some x
            \<and> snd (schedule cfg (two_clients i (Some 1) (Some w) ta tb) db cmds) 1 = Some y
            \<and> fst x \<noteq> fst y)
       \<and> is_allowed cfg db' t' i' m' w' =
           (fst (is_allowed_execute cfg db' t' i' m' w'),
            is_allowed_retract (snd (is_allowed_execute cfg db' t' i' m' w')) t' i'
              (fst (fst (is_allowed_execute cfg db' t' i' m' w'))))"
proof
  let ?rq = "two_clients i (Some 1) (Some w) ta tb"
  have r0: "req_identifier (?rq 0) = i" "req_max (?rq 0) = Some 1"
    "req_window (?rq 0) = Some w" "req_time (?rq 0) = ta"
    by (simp_all add: two_clients_def)
  have r1: "req_identifier (?rq 1) = i" "req_max (?rq 1) = Some 1"
    "req_window (?rq 1) = Some w" "req_time (?rq 1) = tb"
    by (simp_all add: two_clients_def)
  have d': "\<bar>tb - ta\<bar> < real_of_int w" using assms(3) by simp
  consider "cmds \<in> {[Execute 0, Retract 0, Execute 1, Retract 1],
        [Execute 0, Execute 1, Retract 0, Retract 1],
        [Execute 0, Execute 1, Retract 1, Retract 0]}"
    | "cmds \<in> {[Execute 1, Retract 1, Execute 0, Retract 0],
        [Execute 1, Execute 0, Retract 1, Retract 0],
        [Execute 1, Execute 0, Retract 0, Retract 1]}"
    using assms(4) unfolding shuffles_two_clients by blast
  then show "\<exists>x y. snd (schedule cfg ?rq db cmds) 0 = Some x
            \<and> snd (schedule cfg ?rq db cmds) 1 = Some y \<and> fst x \<noteq> fst y"
  proof cases
    case 1
    have "\<exists>x y. snd (schedule cfg ?rq db cmds) 0 = Some x
        \<and> snd (schedule cfg ?rq db cmds) 1 = Some y \<and> fst x \<and> \<not> fst y"
      using race_first_then_second[where a=0 and b=1 and rq="?rq" and i=i and w=w
            and ta=ta and tb=tb and db=db and cfg=cfg and cmds=cmds] assms(1,2,3) r0 r1 1
      by simp
    then show ?thesis by blast
  next
    case 2
    have "\<exists>x y. snd (schedule cfg ?rq db cmds) 1 = Some x
        \<and> snd (schedule cfg ?rq db cmds) 0 = Some y \<and> fst x \<and> \<not> fst y"
      using race_first_then_second[where a=1 and b=0 and rq="?rq" and i=i and w=w
            and ta=tb and tb=ta and db=db and cfg=cfg and cmds=cmds] assms(1,2) d' r0 r1 2
      by simp
    then show ?thesis by blast
  qed
next
  show "is_allowed cfg db' t' i' m' w' =
           (fst (is_allowed_execute cfg db' t' i' m' w'),
            is_allowed_retract (snd (is_allowed_execute cfg db' t' i' m' w')) t' i'
              (fst (fst (is_allowed_execute cfg db' t' i' m' w'))))"
    by (rule is_allowed_two_commands)
qed

text \<open>The scenario of the specification, policy (1, 10) and identifier \<open>r\<close>, with the
  two pipelines served before the two retractions.\<close>

theorem one_slot_race_witness:
  "[Execute 0, Execute 1, Retract 0, Retract 1]
      \<in> shuffles [Execute 0, Retract 0] [Execute 1, Retract 1]
   \<and> (\<exists>x y. snd (schedule default_config (two_clients ''r'' (Some 1) (Some 10) 100 101) Map.empty
                 [Execute 0, Execute 1, Retract 0, Retract 1]) 0 = Some x
          \<and> snd (schedule default_config (two_clients ''r'' (Some 1) (Some 10) 100 101) Map.empty
                 [Execute 0, Execute 1, Retract 0, Retract 1]) 1 = Some y
          \<and> fst x \<noteq> fst y)"
proof -
  have s: "[Execute 0, Execute 1, Retract 0, Retract 1]
      \<in> shuffles [Execute 0, Retract 0] [Execute 1, Retract 1]"
    unfolding shuffles_two_clients by simp
  have h: "(1 :: int) \<le> 10" "Map.empty (key_of ''r'') = None" "\<bar>100 - 101 :: real\<bar> < real_of_int 10"
    by simp_all
  show ?thesis
    using s one_slot_race[OF h s, of default_config, THEN conjunct1] by blast
qed

text \<open>
  The retraction is not part of the atomic step, so the claim as stated fails. Policy
  (2, 10), the record of the events 95 and 96; client 0 calls at 104, client 1 at 105,
  when the event of 95 has aged out. Served one call after the other, in either order,
  client 1 is allowed. When the pipeline of client 1 is served between the pipeline and the
  retraction of client 0, it counts the event client 0 is about to retract, and client 1
  is rejected too.
\<close>

theorem retraction_is_a_separate_step:
  "snd (checks default_config Map.empty ''u'' (Some 2) (Some 10) [95, 96])
     = [''rate_limit:u'' \<mapsto> \<lparr>members = [(Str 95, 95), (Str 96, 96)], expire_at = Some 106\<rparr>]
   \<and> map_option fst (snd (schedule default_config (two_clients ''u'' (Some 2) (Some 10) 104 105)
        [''rate_limit:u'' \<mapsto> \<lparr>members = [(Str 95, 95), (Str 96, 96)], expire_at = Some 106\<rparr>]
        [Execute 0, Retract 0, Execute 1, Retract 1]) 1) = Some True
   \<and> map_option fst (snd (schedule default_config (two_clients ''u'' (Some 2) (Some 10) 104 105)
        [''rate_limit:u'' \<mapsto> \<lparr>members = [(Str 95, 95), (Str 96, 96)], expire_at = Some 106\<rparr>]
        [Execute 1, Retract 1, Execute 0, Retract 0]) 1) = Some True
   \<and> map_option fst (snd (schedule default_config (two_clients ''u'' (Some 2) (Some 10) 104 105)
        [''rate_limit:u'' \<mapsto> \<lparr>members = [(Str 95, 95), (Str 96, 96)], expire_at = Some 106\<rparr>]
        [Execute 0, Execute 1, Retract 0, Retract 1]) 1) = Some False"
proof -
  let ?S = "[''rate_limit:u'' \<mapsto> \<lparr>members = [(Str 95, 95), (Str 96, 96)], expire_at = Some 106\<rparr>]"
  let ?S1 = "[''rate_limit:u'' \<mapsto> \<lparr>members = [(Str 95, 95)], expire_at = Some 105\<rparr>]"
  let ?S3 = "[''rate_limit:u'' \<mapsto> \<lparr>members = [(Str 95, 95), (Str 96, 96), (Str 104, 104)], expire_at = Some 114\<rparr>]"
  let ?S2 = "[''rate_limit:u'' \<mapsto> \<lparr>members = [(Str 95, 95), (Str 96, 96)], expire_at = Some 114\<rparr>]"
  let ?S5 = "[''rate_limit:u'' \<mapsto> \<lparr>members = [(Str 96, 96), (Str 105, 105)], expire_at = Some 115\<rparr>]"
  let ?rq = "two_clients ''u'' (Some 2) (Some 10) 104 105"
  note x_defs = is_allowed_execute_def is_allowed_retract_def
  have c1: "is_allowed default_config Map.empty 95 ''u'' (Some 2) (Some 10) =
      ((True, \<lparr>limit = 2, remaining = 1, reset_time = 105, retry_after = 0\<rparr>), ?S1)"
    by (simp add: eval_defs)
  have c2: "snd (is_allowed default_config ?S1 96 ''u'' (Some 2) (Some 10)) = ?S"
    by (simp add: eval_defs)
  have reach: "snd (checks default_config Map.empty ''u'' (Some 2) (Some 10) [95, 96]) = ?S"
    using c2 by (simp add: c1 split_def)
  have q0: "req_identifier (?rq 0) = ''u''" "req_max (?rq 0) = Some 2"
    "req_window (?rq 0) = Some 10" "req_time (?rq 0) = 104"
    by (simp_all add: two_clients_def)
  have q1: "req_identifier (?rq 1) = ''u''" "req_max (?rq 1) = Some 2"
    "req_window (?rq 1) = Some 10" "req_time (?rq 1) = 105"
    by (simp_all add: two_clients_def)
  note q1 = q1 q1[unfolded One_nat_def]
  have e0S: "is_allowed_execute default_config ?S 104 ''u'' (Some 2) (Some 10) =
      ((False, \<lparr>limit = 2, remaining = 0, reset_time = 114, retry_after = 10\<rparr>), ?S3)"
    by (simp add: x_defs eval_defs)
  have t0: "is_allowed_retract ?S3 104 ''u'' False = ?S2"
    by (simp add: x_defs eval_defs)
  have e1S2: "fst (fst (is_allowed_execute default_config ?S2 105 ''u'' (Some 2) (Some 10))) = True"
    by (simp add: x_defs eval_defs)
  have e1S3: "fst (fst (is_allowed_execute default_config ?S3 105 ''u'' (Some 2) (Some 10))) = False"
    by (simp add: x_defs eval_defs)
  have e1S: "is_allowed_execute default_config ?S 105 ''u'' (Some 2) (Some 10) =
      ((True, \<lparr>limit = 2, remaining = 0, reset_time = 115, retry_after = 0\<rparr>), ?S5)"
    by (simp add: x_defs eval_defs)
  have a: "map_option fst (snd (schedule default_config ?rq ?S
        [Execute 0, Retract 0, Execute 1, Retract 1]) 1) = Some True"
    using e1S2
    by (simp add: schedule_def serve_Execute q0 q1 e0S t0 del: serve.simps(1))
  have b: "map_option fst (snd (schedule default_config ?rq ?S
        [Execute 1, Retract 1, Execute 0, Retract 0]) 1) = Some True"
    by (simp add: schedule_def serve_Execute q0 q1 e1S is_allowed_retract_def del: serve.simps(1))
  have c: "map_option fst (snd (schedule default_config ?rq ?S
        [Execute 0, Execute 1, Retract 0, Retract 1]) 1) = Some False"
    using e1S3
    by (simp add: schedule_def serve_Execute q0 q1 e0S del: serve.simps(1))
  show ?thesis using reach a b c by blast
qed

end
